theory Spec2Isabelle
  imports Main
begin

section \<open>Faults of the C++ program\<close>

text \<open>
  Undefined behaviour and failed assertions of the C++ source are results of the model:
  a function that can run into one returns \<open>fault + 'a\<close>.
\<close>

datatype fault = OutOfRange | NullDereference | AssertionFailure | InvalidPointer

section \<open>WordEnumerator (font_manager.cpp, lines 55-133)\<close>

text \<open>
  Modelled from the spec: the per-byte classes written by the break classifier
  (linebreak.h of libunibreak is not part of the sources): must-break, allow-break,
  inside-a-character and other.
\<close>

datatype break_class =
  LINEBREAK_MUSTBREAK | LINEBREAK_ALLOWBREAK | LINEBREAK_NOBREAK | LINEBREAK_INSIDEACHAR

text \<open>
  The enumerator reads the buffer it was constructed over and never writes it; the
  record holds the buffer's contents. \<open>size_t\<close> is \<open>nat\<close>: a vector's size is far
  below the range of \<open>size_t\<close>.
\<close>

record WordEnumerator =
  current_index :: nat
  current_length :: nat
  buffer_of :: "break_class list"
  finished :: bool
  single_line_mode :: bool

definition WordEnumerator_new :: "break_class list \<Rightarrow> bool \<Rightarrow> WordEnumerator" where
  "WordEnumerator_new buf single =
     \<lparr>current_index = 0, current_length = 0, buffer_of = buf,
      finished = False, single_line_mode = single\<rparr>"

definition is_break :: "break_class \<Rightarrow> bool" where
  "is_break word_info \<longleftrightarrow>
     word_info = LINEBREAK_MUSTBREAK \<or> word_info = LINEBREAK_ALLOWBREAK"

text \<open>The while loop of Advance (lines 86-93): the first index at or after \<open>index\<close>
  that holds a break class, or the size of the buffer when there is none.\<close>

function scan_break :: "break_class list \<Rightarrow> nat \<Rightarrow> nat" where
  "scan_break buffer index =
     (if index < length buffer
      then (if is_break (buffer ! index) then index else scan_break buffer (index + 1))
      else index)"
  by pat_completeness auto
termination
  by (relation "measure (\<lambda>(buffer, index). length buffer - index)") auto

declare scan_break.simps [simp del]

definition Advance :: "WordEnumerator \<Rightarrow> bool \<times> WordEnumerator" where
  "Advance e =
     (if single_line_mode e \<and> \<not> finished e
      then (True, e\<lparr>finished := True, current_length := length (buffer_of e)\<rparr>)
      else
        let e1 = e\<lparr>current_index := current_index e + current_length e\<rparr> in
        if current_index e1 \<ge> length (buffer_of e1) \<or> finished e1 then (False, e1)
        else
          let index = scan_break (buffer_of e1) (current_index e1) in
          (True, e1\<lparr>current_length := index - current_index e1 + 1\<rparr>))"

definition IsLastWord :: "WordEnumerator \<Rightarrow> bool" where
  "IsLastWord e \<longleftrightarrow>
     current_index e + current_length e \<ge> length (buffer_of e) \<or> finished e"

definition GetCurrentWordIndex :: "WordEnumerator \<Rightarrow> nat" where
  "GetCurrentWordIndex e = current_index e"

definition GetCurrentWordLength :: "WordEnumerator \<Rightarrow> nat" where
  "GetCurrentWordLength e = current_length e"

text \<open>\<open>(*buffer_)[i]\<close> is an unchecked read: out of range it is the fault OutOfRange.\<close>

definition CurrentWordMustBreak :: "WordEnumerator \<Rightarrow> fault + bool" where
  "CurrentWordMustBreak e =
     (if current_index e + current_length e = 0 then Inr False
      else if current_index e + current_length e - 1 < length (buffer_of e)
      then Inr (buffer_of e ! (current_index e + current_length e - 1) = LINEBREAK_MUSTBREAK)
      else Inl OutOfRange)"

text \<open>The enumerator after \<open>k\<close> calls of Advance.\<close>

fun Advance_times :: "nat \<Rightarrow> WordEnumerator \<Rightarrow> WordEnumerator" where
  "Advance_times 0 e = e"
| "Advance_times (Suc k) e = snd (Advance (Advance_times k e))"

section \<open>Numbers\<close>

text \<open>
  \<open>float\<close> values are of a type \<open>'f\<close> that the model does not look into; its
  arithmetic is a parameter. No statement below depends on how floats round.
\<close>

record 'f float_ops =
  f_of_int :: "int \<Rightarrow> 'f"
  f_to_int :: "'f \<Rightarrow> int"
  f_add :: "'f \<Rightarrow> 'f \<Rightarrow> 'f"
  f_sub :: "'f \<Rightarrow> 'f \<Rightarrow> 'f"
  f_mul :: "'f \<Rightarrow> 'f \<Rightarrow> 'f"
  f_div :: "'f \<Rightarrow> 'f \<Rightarrow> 'f"

text \<open>Division of C++ on \<open>int\<close>: the quotient is truncated towards zero.\<close>

definition c_div :: "int \<Rightarrow> int \<Rightarrow> int" where
  "c_div a b = sgn a * sgn b * (\<bar>a\<bar> div \<bar>b\<bar>)"

text \<open>Conversions of C++ (LP64): an \<open>int\<close> to \<open>size_t\<close>, and an integer to \<open>int32_t\<close>.\<close>

definition to_size_t :: "int \<Rightarrow> int" where
  "to_size_t x = x mod 2 ^ 64"

definition to_int32 :: "int \<Rightarrow> int" where
  "to_int32 x = (x + 2 ^ 31) mod 2 ^ 32 - 2 ^ 31"

section \<open>Layout parameters and FontBuffer\<close>

text \<open>
  Modelled from the spec: the types that font_manager.h declares (the header is not
  part of the sources). The alignment is a base alignment and a justify bit; the glyph
  flags hold the two signed-distance-field modes; the layout parameters are read through
  their getters, one field for each getter the source calls.
\<close>

datatype Alignment = kTextAlignmentLeft | kTextAlignmentRight | kTextAlignmentCenter

record TextAlignment =
  align_part :: Alignment
  justify_part :: bool

datatype TextLayoutDirection = kTextLayoutDirectionLTR | kTextLayoutDirectionRTL

record GlyphFlags =
  kGlyphFlagsOuterSDF :: bool
  kGlyphFlagsInnerSDF :: bool

record 'f FontBufferParameters =
  get_font_id :: nat
  get_text_id :: nat
  get_font_size :: 'f
  get_size :: "int \<times> int"
  get_text_alignment :: TextAlignment
  get_glyph_flags :: GlyphFlags
  get_caret_info_flag :: bool
  get_ref_count_flag :: bool
  get_multi_line_setting :: bool
  get_line_length :: nat

record FontMetrics =
  base_line :: int
  internal_leading :: int
  ascender :: int
  descender :: int
  external_leading :: int

record 'f FontVertex =
  position :: "'f \<times> 'f \<times> 'f"
  uv :: "'f \<times> 'f"

text \<open>An entry of the glyph cache, as the source reads it (glyph_cache.h is not part
  of the sources): offset, size, position in the atlas (x, y, slice), the UV rectangle
  (x, y, z, w) and the row that holds the entry.\<close>

record 'f GlyphCacheEntry =
  entry_code_point :: nat
  entry_offset :: "int \<times> int"
  entry_size :: "int \<times> int"
  entry_pos :: "int \<times> int \<times> nat"
  entry_uv :: "'f \<times> 'f \<times> 'f \<times> 'f"
  entry_row :: nat

text \<open>
  FontBuffer. \<open>vertices\<close> holds kVerticesPerCodePoint vertices for each entry of
  \<open>code_points\<close>; \<open>has_caret_positions\<close> is what HasCaretPositions returns (set by the
  constructor from the caret flag); \<open>iterator\<close> is the key of the map entry that owns
  the buffer, once it is inserted.
\<close>

record 'f FontBuffer =
  vertices :: "'f FontVertex list"
  code_points :: "nat list"
  caret_positions :: "(int \<times> int) list"
  indices :: "nat list list"
  slices :: "nat list"
  word_boundary :: "nat list"
  word_boundary_caret :: "nat list"
  line_start_index :: nat
  line_start_caret_index :: nat
  revision :: nat
  ref_count :: int
  pass :: int
  buffer_size :: "int \<times> int"
  metrics :: FontMetrics
  referencing_rows :: "nat list"
  has_caret_positions :: bool
  iterator :: "'f FontBufferParameters option"

definition kVerticesPerCodePoint :: nat where
  "kVerticesPerCodePoint = 4"

definition FontBuffer_new :: "nat \<Rightarrow> bool \<Rightarrow> 'f FontBuffer" where
  "FontBuffer_new len caret_info =
     \<lparr>vertices = [], code_points = [], caret_positions = [], indices = [], slices = [],
      word_boundary = [], word_boundary_caret = [], line_start_index = 0,
      line_start_caret_index = 0, revision = 0, ref_count = 0, pass = 0,
      buffer_size = (0, 0),
      metrics = \<lparr>base_line = 0, internal_leading = 0, ascender = 0, descender = 0,
                 external_leading = 0\<rparr>,
      referencing_rows = [], has_caret_positions = caret_info, iterator = None\<rparr>"

definition AddCodepoint :: "nat \<Rightarrow> 'f FontBuffer \<Rightarrow> 'f FontBuffer" where
  "AddCodepoint code_point b = b\<lparr>code_points := code_points b @ [code_point]\<rparr>"

text \<open>FontBuffer::AddVertices (lines 1066-1084).\<close>

definition AddVertices ::
  "'f float_ops \<Rightarrow> 'f \<times> 'f \<Rightarrow> int \<Rightarrow> 'f \<Rightarrow> 'f GlyphCacheEntry \<Rightarrow> 'f FontBuffer \<Rightarrow> 'f FontBuffer"
where
  "AddVertices fl pos base scale entry b =
     (let rounded_pos = (f_to_int fl (fst pos), f_to_int fl (snd pos));
          scaled_offset = (f_mul fl (f_of_int fl (fst (entry_offset entry))) scale,
                           f_mul fl (f_of_int fl (snd (entry_offset entry))) scale);
          scaled_size = (f_mul fl (f_of_int fl (fst (entry_size entry))) scale,
                         f_mul fl (f_of_int fl (snd (entry_size entry))) scale);
          scaled_base_line = f_mul fl (f_of_int fl base) scale;
          x = f_add fl (f_of_int fl (fst rounded_pos)) (fst scaled_offset);
          y = f_sub fl (f_add fl (f_of_int fl (snd rounded_pos)) scaled_base_line)
                (snd scaled_offset);
          zero = f_of_int fl 0;
          (ux, uy, uz, uw) = entry_uv entry
      in b\<lparr>vertices := vertices b @
           [\<lparr>position = (x, y, zero), uv = (ux, uy)\<rparr>,
            \<lparr>position = (x, f_add fl y (snd scaled_size), zero), uv = (ux, uw)\<rparr>,
            \<lparr>position = (f_add fl x (fst scaled_size), y, zero), uv = (uz, uy)\<rparr>,
            \<lparr>position = (f_add fl x (fst scaled_size), f_add fl y (snd scaled_size), zero),
             uv = (uz, uw)\<rparr>]\<rparr>)"

text \<open>FontBuffer::AddCaretPosition (lines 1093-1101): the float position is truncated;
  the assertion is that the caret vector was reserved.\<close>

definition AddCaretPosition_xy :: "int \<Rightarrow> int \<Rightarrow> 'f FontBuffer \<Rightarrow> fault + 'f FontBuffer" where
  "AddCaretPosition_xy x y b =
     (if has_caret_positions b then Inr (b\<lparr>caret_positions := caret_positions b @ [(x, y)]\<rparr>)
      else Inl AssertionFailure)"

definition AddCaretPosition :: "'f float_ops \<Rightarrow> 'f \<times> 'f \<Rightarrow> 'f FontBuffer \<Rightarrow> fault + 'f FontBuffer" where
  "AddCaretPosition fl pos b = AddCaretPosition_xy (f_to_int fl (fst pos)) (f_to_int fl (snd pos)) b"

text \<open>FontBuffer::AddWordBoundary (lines 1103-1109).\<close>

definition AddWordBoundary :: "'f FontBufferParameters \<Rightarrow> 'f FontBuffer \<Rightarrow> 'f FontBuffer" where
  "AddWordBoundary parameters b =
     (if justify_part (get_text_alignment parameters)
      then b\<lparr>word_boundary := word_boundary b @ [length (code_points b)],
              word_boundary_caret := word_boundary_caret b @ [length (caret_positions b)]\<rparr>
      else b)"

text \<open>FontBuffer::UpdateUV (lines 1086-1091): four unchecked writes.\<close>

definition set_uv :: "'f \<times> 'f \<Rightarrow> 'f FontVertex \<Rightarrow> 'f FontVertex" where
  "set_uv c v = v\<lparr>uv := c\<rparr>"

definition FontBuffer_UpdateUV ::
  "nat \<Rightarrow> 'f \<times> 'f \<times> 'f \<times> 'f \<Rightarrow> 'f FontBuffer \<Rightarrow> fault + 'f FontBuffer"
where
  "FontBuffer_UpdateUV index c b =
     (case c of (ux, uy, uz, uw) \<Rightarrow>
        if index * 4 + 3 < length (vertices b)
        then Inr (b\<lparr>vertices := (vertices b)
               [index * 4 := set_uv (ux, uy) (vertices b ! (index * 4)),
                index * 4 + 1 := set_uv (ux, uw) (vertices b ! (index * 4 + 1)),
                index * 4 + 2 := set_uv (uz, uy) (vertices b ! (index * 4 + 2)),
                index * 4 + 3 := set_uv (uz, uw) (vertices b ! (index * 4 + 3))]\<rparr>)
        else Inl OutOfRange)"

subsection \<open>FontBuffer::UpdateLine (lines 1111-1182)\<close>

definition move_x :: "'f float_ops \<Rightarrow> int \<Rightarrow> 'f FontVertex \<Rightarrow> 'f FontVertex" where
  "move_x fl offset v =
     v\<lparr>position := (case position v of (x, y, z) \<Rightarrow> (f_add fl x (f_of_int fl offset), y, z))\<rparr>"

text \<open>The inner loop (lines 1156-1160): \<open>i\<close> vertices from the iterator \<open>it\<close> on.\<close>

fun shift_vertices ::
  "'f float_ops \<Rightarrow> int \<Rightarrow> nat \<Rightarrow> nat \<Rightarrow> 'f FontVertex list \<Rightarrow> fault + 'f FontVertex list"
where
  "shift_vertices fl offset it 0 vs = Inr vs"
| "shift_vertices fl offset it (Suc i) vs =
     (if it < length vs
      then shift_vertices fl offset (it + 1) i (vs[it := move_x fl offset (vs ! it)])
      else Inl OutOfRange)"

text \<open>The loop over the glyphs of the line (lines 1150-1161). \<open>word_boundary_[boundary_index]\<close>
  is read only when \<open>justify\<close> holds, and is an unchecked read.\<close>

function update_glyph_positions ::
  "'f float_ops \<Rightarrow> bool \<Rightarrow> int \<Rightarrow> nat list \<Rightarrow> nat \<Rightarrow> nat \<Rightarrow> nat \<Rightarrow> int \<Rightarrow> 'f FontVertex list
     \<Rightarrow> fault + 'f FontVertex list"
where
  "update_glyph_positions fl justify boundary_offset_change wb n idx boundary_index offset vs =
     (if idx < n then
        (if justify \<and> length wb \<le> boundary_index then Inl OutOfRange
         else
           let cross = (justify \<and> idx \<ge> wb ! boundary_index);
               boundary_index' = (if cross then boundary_index + 1 else boundary_index);
               offset' = (if cross then offset + boundary_offset_change else offset)
           in (case shift_vertices fl offset' (idx * kVerticesPerCodePoint)
                       kVerticesPerCodePoint vs of
                 Inl f \<Rightarrow> Inl f
               | Inr vs' \<Rightarrow>
                   update_glyph_positions fl justify boundary_offset_change wb n (idx + 1)
                     boundary_index' offset' vs'))
      else Inr vs)"
  by pat_completeness auto
termination
  by (relation "measure (\<lambda>(fl, justify, c, wb, n, idx, bi, offset, vs). n - idx)") auto

declare update_glyph_positions.simps [simp del]

text \<open>The loop over the carets of the line (lines 1165-1173).\<close>

function update_caret_positions ::
  "bool \<Rightarrow> int \<Rightarrow> nat list \<Rightarrow> nat \<Rightarrow> nat \<Rightarrow> int \<Rightarrow> (int \<times> int) list \<Rightarrow> fault + (int \<times> int) list"
where
  "update_caret_positions justify boundary_offset_change wbc idx boundary_index offset_caret cs =
     (if idx < length cs then
        (if justify \<and> length wbc \<le> boundary_index then Inl OutOfRange
         else
           let cross = (justify \<and> idx \<ge> wbc ! boundary_index);
               boundary_index' = (if cross then boundary_index + 1 else boundary_index);
               offset_caret' = (if cross then offset_caret + boundary_offset_change
                                else offset_caret)
           in update_caret_positions justify boundary_offset_change wbc (idx + 1)
                boundary_index' offset_caret'
                (cs[idx := (fst (cs ! idx) + offset_caret', snd (cs ! idx))]))
      else Inr cs)"
  by pat_completeness auto
termination
  by (relation "measure (\<lambda>(justify, c, wbc, idx, bi, offset, cs). length cs - idx)") auto

declare update_caret_positions.simps [simp del]

text \<open>
  The offsets of a line (lines 1123-1147): whether the line is justified, the offset of
  its first glyph and the change of the offset at each word boundary. The quotient of
  the justification is computed in \<open>size_t\<close> (the divisor is a vector size) and stored
  in an \<open>int\<close>.
\<close>

definition line_offsets ::
  "'f FontBufferParameters \<Rightarrow> TextLayoutDirection \<Rightarrow> int \<Rightarrow> bool \<Rightarrow> nat \<Rightarrow> bool \<times> int \<times> int"
where
  "line_offsets parameters layout_direction line_width justify n_boundaries =
     (let align = align_part (get_text_alignment parameters);
          (justify', offset, boundary_offset_change) =
            (if justify \<and> n_boundaries > 1
             then (True, 0,
                   to_int32 (to_size_t (fst (get_size parameters) - line_width)
                             div (int n_boundaries - 1)))
             else (False,
                   (let offset = fst (get_size parameters) - line_width
                    in if align = kTextAlignmentCenter then c_div offset 2 else offset),
                   0))
      in if layout_direction = kTextLayoutDirectionRTL
         then (justify', - offset, - boundary_offset_change)
         else (justify', offset, boundary_offset_change))"

definition UpdateLine ::
  "'f float_ops \<Rightarrow> 'f FontBufferParameters \<Rightarrow> TextLayoutDirection \<Rightarrow> int \<Rightarrow> bool \<Rightarrow> 'f FontBuffer
     \<Rightarrow> fault + 'f FontBuffer"
where
  "UpdateLine fl parameters layout_direction line_width last_line b =
     (let align = align_part (get_text_alignment parameters);
          justify = (justify_part (get_text_alignment parameters) \<and> \<not> last_line);
          adjusted =
            (if justify \<or> align \<noteq> kTextAlignmentLeft then
               (case line_offsets parameters layout_direction line_width justify
                       (length (word_boundary b)) of
                  (justify', offset, boundary_offset_change) \<Rightarrow>
                    (case update_glyph_positions fl justify' boundary_offset_change
                            (word_boundary b) (length (code_points b)) (line_start_index b)
                            0 offset (vertices b) of
                       Inl f \<Rightarrow> Inl f
                     | Inr vs \<Rightarrow>
                         if has_caret_positions b then
                           (case update_caret_positions justify' boundary_offset_change
                                   (word_boundary_caret b) (line_start_caret_index b) 0 offset
                                   (caret_positions b) of
                              Inl f \<Rightarrow> Inl f
                            | Inr cs \<Rightarrow> Inr (b\<lparr>vertices := vs, caret_positions := cs\<rparr>))
                         else Inr (b\<lparr>vertices := vs\<rparr>)))
             else Inr b)
      in case adjusted of
           Inl f \<Rightarrow> Inl f
         | Inr b' \<Rightarrow>
             Inr (b'\<lparr>line_start_index := length (code_points b'),
                     line_start_caret_index := length (caret_positions b'),
                     word_boundary := [], word_boundary_caret := []\<rparr>))"

section \<open>FontManager\<close>

subsection \<open>Collaborators\<close>

text \<open>
  The glyph cache (glyph_cache.h), the fonts with FreeType and HarfBuzz behind them
  (font_manager.h and the libraries) and the break classifier are not part of the
  sources. Their states are of types \<open>'c\<close> (the cache) and \<open>'e\<close> (the fonts and
  libraries) that the model does not look into, and their operations are parameters of
  the model, with the signatures the source and the spec give them.
\<close>

record GlyphKey =
  key_font_id :: nat
  key_code_point :: nat
  key_size :: int
  key_flags :: GlyphFlags

text \<open>The glyph slot of a FreeType face, as far as the source reads it.\<close>

record FT_GlyphSlot =
  bitmap_left :: int
  bitmap_top :: int
  bitmap_width :: nat
  bitmap_rows :: nat
  bitmap_buffer :: "nat list"

text \<open>A shaped glyph of the HarfBuzz buffer: glyph info and glyph position.\<close>

record hb_glyph =
  codepoint :: nat
  cluster :: nat
  x_advance :: int
  y_advance :: int

text \<open>
  Modelled from the spec: the operations of the glyph cache. \<open>Find\<close> is a pure lookup;
  \<open>Set\<close> places an entry (code point, offset, size; with the bitmap, or with no
  bitmap to reserve the space) and returns it, or returns nothing when the cache is full;
  \<open>Flush\<close> evicts and invalidates the buffers that reference evicted rows, which are
  the FontBuffer objects of the manager, so it takes and returns the store of buffers;
  \<open>Update\<close> advances the cycle counter. \<open>sdf_Compute\<close> is the signed-distance-field
  transform, which writes into the pixel buffer of the cache. \<open>row_AddRef\<close> and
  \<open>row_Release\<close> maintain the back-references of a row to the buffers (by address).
\<close>

record ('f, 'c) cache_ops =
  cache_Find :: "'c \<Rightarrow> GlyphKey \<Rightarrow> 'f GlyphCacheEntry option"
  cache_Set :: "'c \<Rightarrow> nat list option \<Rightarrow> GlyphKey \<Rightarrow> nat \<Rightarrow> int \<times> int \<Rightarrow> int \<times> int
                 \<Rightarrow> 'f GlyphCacheEntry option \<times> 'c"
  cache_Flush :: "'c \<Rightarrow> (nat \<rightharpoonup> 'f FontBuffer) \<Rightarrow> 'c \<times> (nat \<rightharpoonup> 'f FontBuffer)"
  cache_Update :: "'c \<Rightarrow> 'c"
  cache_get_revision :: "'c \<Rightarrow> nat"
  cache_get_dirty_state :: "'c \<Rightarrow> bool"
  cache_set_dirty_state :: "'c \<Rightarrow> bool \<Rightarrow> 'c"
  cache_get_num_slices :: "'c \<Rightarrow> nat"
  sdf_Compute :: "'c \<Rightarrow> 'f GlyphCacheEntry \<Rightarrow> FT_GlyphSlot \<Rightarrow> GlyphFlags \<Rightarrow> 'c"
  row_AddRef :: "'c \<Rightarrow> nat \<Rightarrow> nat \<Rightarrow> 'c"
  row_Release :: "'c \<Rightarrow> nat \<Rightarrow> nat \<Rightarrow> 'c"

text \<open>
  The operations of the selected font and of the libraries behind it: the pixel size,
  the base line, the font id of the face that serves a code point, FT_Load_Glyph (True is
  an error) and the glyph slot of that face, and the shaping of a text that is added to
  the HarfBuzz buffer (given the contents of the buffer, the direction and the script).
\<close>

record 'e font_ops =
  SetPixelSize :: "'e \<Rightarrow> int \<Rightarrow> 'e"
  GetBaseLine :: "'e \<Rightarrow> int \<Rightarrow> int"
  GetFontId :: "'e \<Rightarrow> nat \<Rightarrow> nat"
  FT_Load_Glyph :: "'e \<Rightarrow> nat \<Rightarrow> bool \<times> 'e"
  glyph_slot :: "'e \<Rightarrow> nat \<Rightarrow> FT_GlyphSlot"
  hb_shape :: "'e \<Rightarrow> hb_glyph list \<Rightarrow> TextLayoutDirection \<Rightarrow> nat \<Rightarrow> string \<Rightarrow> hb_glyph list"

text \<open>
  The environment of the manager: the three families of operations, the break
  classifier (text and language to one class for each byte), FontBuffer::Verify, and the
  constants of font_manager.h that the source names.
\<close>

record ('f, 'c, 'e) env =
  env_fl :: "'f float_ops"
  env_co :: "('f, 'c) cache_ops"
  env_fo :: "'e font_ops"
  set_linebreaks_utf8 :: "string \<Rightarrow> string \<Rightarrow> break_class list"
  Verify :: "'f FontBuffer \<Rightarrow> bool"
  kFreeTypeUnit :: nat
  kRenderPass :: int
  kGlyphCachePaddingSDF :: int

subsection \<open>The state of the manager\<close>

text \<open>What the source logs, and the calls on the cache and the textures that the
  statements below count.\<close>

datatype event =
    LogInfo_CantLoadGlyph nat
  | LogInfo_GlyphCacheFull
  | LogInfo_WordExceedsLine
  | LogInfo_MultipleSubpasses
  | LogError_TextDoesNotFit
  | Call_CacheUpdate
  | Call_CacheFlush
  | Call_UpdateTexture nat

text \<open>
  The FontBuffer objects that the entries of \<open>map_buffers\<close> own live in the store
  \<open>buffers\<close>, by address; a \<open>FontBuffer *\<close> is an address, and \<open>next_buffer\<close> is the
  address of the next object that \<open>new FontBuffer\<close> makes. \<open>atlas_textures\<close> holds for
  each slot whether it points to a texture. \<open>current_font\<close> is the selected font, if
  any.
\<close>

record ('f, 'c, 'e) FontManager =
  glyph_cache :: 'c
  fonts :: 'e
  current_font :: "nat option"
  harfbuzz_buf :: "hb_glyph list"
  current_atlas_revision :: nat
  current_pass :: int
  layout_direction :: TextLayoutDirection
  script :: nat
  language :: string
  line_height :: 'f
  wordbreak_info :: "break_class list"
  atlas_indices :: "int list"
  atlas_textures :: "bool list"
  map_buffers :: "'f FontBufferParameters \<rightharpoonup> nat"
  buffers :: "nat \<rightharpoonup> 'f FontBuffer"
  next_buffer :: nat
  size_selector :: "(int \<Rightarrow> int) option"
  event_log :: "event list"

definition kInvalidSliceIndex :: int where
  "kInvalidSliceIndex = - 1"

text \<open>\<open>std::vector::resize(n, v)\<close>.\<close>

definition resize :: "nat \<Rightarrow> 'a \<Rightarrow> 'a list \<Rightarrow> 'a list" where
  "resize n v xs = take n xs @ replicate (n - length xs) v"

definition add_log :: "event \<Rightarrow> ('f, 'c, 'e) FontManager \<Rightarrow> ('f, 'c, 'e) FontManager" where
  "add_log ev s = s\<lparr>event_log := event_log s @ [ev]\<rparr>"

text \<open>FontManager::ExpandAtlasTexture (lines 1044-1056): only the last new slot gets a
  texture.\<close>

definition ExpandAtlasTexture ::
  "('f, 'c, 'e) env \<Rightarrow> ('f, 'c, 'e) FontManager \<Rightarrow> ('f, 'c, 'e) FontManager"
where
  "ExpandAtlasTexture env s =
     (let slices = cache_get_num_slices (env_co env) (glyph_cache s) in
      if slices > length (atlas_textures s)
      then s\<lparr>atlas_textures := (resize slices False (atlas_textures s))[slices - 1 := True],
             atlas_indices := resize slices kInvalidSliceIndex (atlas_indices s)\<rparr>
      else s)"

text \<open>FontManager::ConvertSize (lines 1058-1064).\<close>

definition ConvertSize :: "('f, 'c, 'e) FontManager \<Rightarrow> int \<Rightarrow> int" where
  "ConvertSize s original_ysize =
     (case size_selector s of Some f \<Rightarrow> f original_ysize | None \<Rightarrow> original_ysize)"

text \<open>
  FontManager::GetCachedEntry (lines 981-1042). The result is the entry, or nothing
  (the null pointer) when the glyph cannot be loaded or the cache is full.
\<close>

definition GetCachedEntry ::
  "('f, 'c, 'e) env \<Rightarrow> nat \<Rightarrow> int \<Rightarrow> GlyphFlags \<Rightarrow> ('f, 'c, 'e) FontManager
     \<Rightarrow> fault + ('f GlyphCacheEntry option \<times> ('f, 'c, 'e) FontManager)"
where
  "GetCachedEntry env code_point ysize flags s =
     (case current_font s of
        None \<Rightarrow> Inl NullDereference
      | Some font \<Rightarrow>
          let key = \<lparr>key_font_id = GetFontId (env_fo env) (fonts s) code_point,
                     key_code_point = code_point, key_size = ysize, key_flags = flags\<rparr>
          in (case cache_Find (env_co env) (glyph_cache s) key of
                Some cache \<Rightarrow> Inr (Some cache, ExpandAtlasTexture env s)
              | None \<Rightarrow>
                  (case FT_Load_Glyph (env_fo env) (fonts s) code_point of
                     (True, e) \<Rightarrow>
                       Inr (None, add_log (LogInfo_CantLoadGlyph code_point) (s\<lparr>fonts := e\<rparr>))
                   | (False, e) \<Rightarrow>
                       let g = glyph_slot (env_fo env) e code_point;
                           padding = kGlyphCachePaddingSDF env;
                           (cache, c) =
                             (if (kGlyphFlagsOuterSDF flags \<or> kGlyphFlagsInnerSDF flags) \<and>
                                 bitmap_width g \<noteq> 0 \<and> bitmap_rows g \<noteq> 0
                              then
                                (case cache_Set (env_co env) (glyph_cache s) None key code_point
                                        (bitmap_left g - padding, bitmap_top g + padding)
                                        (int (bitmap_width g) + padding * 2,
                                         int (bitmap_rows g) + padding * 2) of
                                   (Some cache, c) \<Rightarrow>
                                     (Some cache, sdf_Compute (env_co env) c cache g flags)
                                 | (None, c) \<Rightarrow> (None, c))
                              else
                                cache_Set (env_co env) (glyph_cache s) (Some (bitmap_buffer g)) key
                                  code_point (bitmap_left g, bitmap_top g)
                                  (int (bitmap_width g), int (bitmap_rows g)));
                           s1 = s\<lparr>fonts := e, glyph_cache := c\<rparr>
                       in (case cache of
                             None \<Rightarrow> Inr (None, add_log LogInfo_GlyphCacheFull s1)
                           | Some cache \<Rightarrow> Inr (Some cache, ExpandAtlasTexture env s1)))))"

text \<open>
  FontManager::UpdateUV (lines 553-580). The loop runs over the code points that the
  buffer records; \<open>i\<close> is the index of the first of them.
\<close>

fun UpdateUV_loop ::
  "('f, 'c, 'e) env \<Rightarrow> int \<Rightarrow> GlyphFlags \<Rightarrow> nat \<Rightarrow> nat list \<Rightarrow> nat \<Rightarrow> ('f, 'c, 'e) FontManager
     \<Rightarrow> fault + (nat option \<times> ('f, 'c, 'e) FontManager)"
where
  "UpdateUV_loop env ysize flags buffer [] i s = Inr (Some buffer, s)"
| "UpdateUV_loop env ysize flags buffer (code_point # rest) i s =
     (case GetCachedEntry env code_point ysize flags s of
        Inl f \<Rightarrow> Inl f
      | Inr (None, s1) \<Rightarrow> Inr (None, s1)
      | Inr (Some cache, s1) \<Rightarrow>
          (case buffers s1 buffer of
             None \<Rightarrow> Inl InvalidPointer
           | Some b \<Rightarrow>
               (case FontBuffer_UpdateUV i (entry_uv cache) b of
                  Inl f \<Rightarrow> Inl f
                | Inr b1 \<Rightarrow>
                    UpdateUV_loop env ysize flags buffer rest (i + 1)
                      (s1\<lparr>buffers := (buffers s1)
                            (buffer \<mapsto> b1\<lparr>revision :=
                                cache_get_revision (env_co env) (glyph_cache s1)\<rparr>)\<rparr>))))"

definition UpdateUV ::
  "('f, 'c, 'e) env \<Rightarrow> int \<Rightarrow> GlyphFlags \<Rightarrow> nat \<Rightarrow> ('f, 'c, 'e) FontManager
     \<Rightarrow> fault + (nat option \<times> ('f, 'c, 'e) FontManager)"
where
  "UpdateUV env ysize flags buffer s =
     (case buffers s buffer of
        None \<Rightarrow> Inl InvalidPointer
      | Some b \<Rightarrow>
          if revision b \<noteq> current_atlas_revision s then
            (case current_font s of
               None \<Rightarrow> Inl NullDereference
             | Some font \<Rightarrow>
                 UpdateUV_loop env ysize flags buffer (code_points b) 0
                   (s\<lparr>fonts := SetPixelSize (env_fo env) (fonts s) ysize\<rparr>))
          else Inr (Some buffer, s))"

text \<open>
  Modelled from the spec: FontBuffer::ReleaseCacheRowReference (font_manager.h)
  releases the buffer's references to cache rows.
\<close>

definition ReleaseCacheRowReference ::
  "('f, 'c, 'e) env \<Rightarrow> nat \<Rightarrow> 'f FontBuffer \<Rightarrow> 'c \<Rightarrow> 'f FontBuffer \<times> 'c"
where
  "ReleaseCacheRowReference env buffer b c =
     (b\<lparr>referencing_rows := []\<rparr>,
      fold (\<lambda>row c. row_Release (env_co env) c row buffer) (referencing_rows b) c)"

text \<open>
  FontManager::ReleaseBuffer (lines 513-523). Erasing the map entry through the
  buffer's iterator destroys the FontBuffer that the entry owns.
\<close>

definition ReleaseBuffer ::
  "('f, 'c, 'e) env \<Rightarrow> nat \<Rightarrow> ('f, 'c, 'e) FontManager \<Rightarrow> fault + ('f, 'c, 'e) FontManager"
where
  "ReleaseBuffer env buffer s =
     (case buffers s buffer of
        None \<Rightarrow> Inl InvalidPointer
      | Some b \<Rightarrow>
          if \<not> ref_count b \<ge> 1 then Inl AssertionFailure
          else
            let b1 = b\<lparr>ref_count := ref_count b - 1\<rparr> in
            if ref_count b1 = 0 then
              (case ReleaseCacheRowReference env buffer b1 (glyph_cache s) of
                 (b2, c) \<Rightarrow>
                   (case iterator b2 of
                      None \<Rightarrow> Inl InvalidPointer
                    | Some key \<Rightarrow>
                        (case map_buffers s key of
                           None \<Rightarrow> Inl InvalidPointer
                         | Some owned \<Rightarrow>
                             Inr (s\<lparr>glyph_cache := c,
                                    map_buffers := (map_buffers s)(key := None),
                                    buffers := ((buffers s)(buffer \<mapsto> b2))(owned := None)\<rparr>))))
            else Inr (s\<lparr>buffers := (buffers s)(buffer \<mapsto> b1)\<rparr>))"

text \<open>FontManager::StartLayoutPass (lines 850-853).\<close>

definition StartLayoutPass :: "('f, 'c, 'e) FontManager \<Rightarrow> ('f, 'c, 'e) FontManager" where
  "StartLayoutPass s = s\<lparr>current_pass := 0\<rparr>"

text \<open>The upload loop of UpdatePass (lines 861-868), from slice \<open>i\<close> on.\<close>

function upload_slices ::
  "nat \<Rightarrow> nat \<Rightarrow> ('f, 'c, 'e) FontManager \<Rightarrow> fault + ('f, 'c, 'e) FontManager"
where
  "upload_slices num_slices i s =
     (if i < num_slices then
        (if \<not> i < length (atlas_textures s) then Inl OutOfRange
         else if \<not> atlas_textures s ! i then Inl NullDereference
         else upload_slices num_slices (i + 1) (add_log (Call_UpdateTexture i) s))
      else Inr s)"
  by pat_completeness auto
termination
  by (relation "measure (\<lambda>(num_slices, i, s). num_slices - i)") auto

declare upload_slices.simps [simp del]

text \<open>FontManager::UpdatePass (lines 855-888).\<close>

definition UpdatePass ::
  "('f, 'c, 'e) env \<Rightarrow> bool \<Rightarrow> ('f, 'c, 'e) FontManager \<Rightarrow> fault + ('f, 'c, 'e) FontManager"
where
  "UpdatePass env start_subpass s =
     (let s1 = add_log Call_CacheUpdate
                 (s\<lparr>glyph_cache := cache_Update (env_co env) (glyph_cache s)\<rparr>)
      in case (if cache_get_dirty_state (env_co env) (glyph_cache s1) \<and> current_pass s1 \<le> 0
               then (case upload_slices (cache_get_num_slices (env_co env) (glyph_cache s1)) 0 s1 of
                       Inl f \<Rightarrow> Inl f
                     | Inr s2 \<Rightarrow>
                         Inr (s2\<lparr>current_atlas_revision :=
                                   cache_get_revision (env_co env) (glyph_cache s2),
                                 glyph_cache :=
                                   cache_set_dirty_state (env_co env) (glyph_cache s2) False\<rparr>))
               else Inr s1) of
           Inl f \<Rightarrow> Inl f
         | Inr s3 \<Rightarrow>
             if start_subpass then
               (let s4 = (if current_pass s3 > 0 then add_log LogInfo_MultipleSubpasses s3
                          else s3)
                in case cache_Flush (env_co env) (glyph_cache s4) (buffers s4) of
                     (c, bs) \<Rightarrow>
                       Inr ((add_log Call_CacheFlush s4)
                              \<lparr>glyph_cache := c, buffers := bs,
                               current_atlas_revision := cache_get_revision (env_co env) c,
                               current_pass := current_pass s4 + 1\<rparr>))
             else Inr (s3\<lparr>current_pass := kRenderPass env\<rparr>))"

text \<open>
  Modelled from the spec: FontManager::FlushAndUpdate (font_manager.h) flushes the glyph
  cache and uploads the texture, as UpdatePass does when it starts a subpass.
\<close>

definition FlushAndUpdate ::
  "('f, 'c, 'e) env \<Rightarrow> ('f, 'c, 'e) FontManager \<Rightarrow> fault + ('f, 'c, 'e) FontManager"
where
  "FlushAndUpdate env s = UpdatePass env True s"

subsection \<open>FontManager::CreateBuffer (lines 226-511)\<close>

definition to_uint32 :: "int \<Rightarrow> nat" where
  "to_uint32 x = nat (x mod 2 ^ 32)"

definition vec2_add :: "'f float_ops \<Rightarrow> 'f \<times> 'f \<Rightarrow> 'f \<times> 'f \<Rightarrow> 'f \<times> 'f" where
  "vec2_add ops a b = (f_add ops (fst a) (fst b), f_add ops (snd a) (snd b))"

definition vec2_sub :: "'f float_ops \<Rightarrow> 'f \<times> 'f \<Rightarrow> 'f \<times> 'f \<Rightarrow> 'f \<times> 'f" where
  "vec2_sub ops a b = (f_sub ops (fst a) (fst b), f_sub ops (snd a) (snd b))"

text \<open>FontManager::LayoutText (lines 890-911): the text is added to the HarfBuzz
  buffer and shaped; the width is summed in \<open>uint32_t\<close>.\<close>

definition LayoutText ::
  "('f, 'c, 'e) env \<Rightarrow> string \<Rightarrow> ('f, 'c, 'e) FontManager \<Rightarrow> nat \<times> ('f, 'c, 'e) FontManager"
where
  "LayoutText env text s =
     (let glyphs = hb_shape (env_fo env) (fonts s) (harfbuzz_buf s) (layout_direction s)
                     (script s) text
      in (to_uint32 (sum_list (map x_advance glyphs)), s\<lparr>harfbuzz_buf := glyphs\<rparr>))"

definition hb_buffer_clear_contents :: "('f, 'c, 'e) FontManager \<Rightarrow> ('f, 'c, 'e) FontManager" where
  "hb_buffer_clear_contents s = s\<lparr>harfbuzz_buf := []\<rparr>"

text \<open>FontManager::UpdateMetrics (lines 913-935): the new metrics, if they change.\<close>

definition UpdateMetrics :: "FT_GlyphSlot \<Rightarrow> FontMetrics \<Rightarrow> FontMetrics option" where
  "UpdateMetrics g current_metrics =
     (if bitmap_top g > ascender current_metrics \<or>
         to_int32 (bitmap_top g - int (bitmap_rows g)) < descender current_metrics
      then
        (let il = max (internal_leading current_metrics)
                    (bitmap_top g - ascender current_metrics);
             el = min (external_leading current_metrics)
                    (to_int32 (bitmap_top g - int (bitmap_rows g) - descender current_metrics))
         in Some (current_metrics\<lparr>internal_leading := il, external_leading := el,
                                  base_line := il + ascender current_metrics\<rparr>))
      else None)"

text \<open>The counting loop of GetCaretPosCount (lines 543-549); \<open>at\<close> is a checked read.\<close>

fun count_characters :: "break_class list \<Rightarrow> nat list \<Rightarrow> int \<Rightarrow> fault + int" where
  "count_characters buf [] num_characters = Inr num_characters"
| "count_characters buf (j # js) num_characters =
     (if j < length buf
      then count_characters buf js
             (if buf ! j \<noteq> LINEBREAK_INSIDEACHAR then num_characters + 1 else num_characters)
      else Inl OutOfRange)"

text \<open>FontManager::GetCaretPosCount (lines 525-551). The caller passes an index of
  the glyph array.\<close>

definition GetCaretPosCount ::
  "TextLayoutDirection \<Rightarrow> WordEnumerator \<Rightarrow> hb_glyph list \<Rightarrow> int \<Rightarrow> int \<Rightarrow> fault + int"
where
  "GetCaretPosCount direction_of_layout word_enum glyph_info glyph_count index =
     (let byte_index = cluster (glyph_info ! nat index);
          direction = (if direction_of_layout = kTextLayoutDirectionLTR then 1 else - 1);
          byte_size =
            (if index \<ge> - direction \<and> index < glyph_count - direction
             then to_int32 (int (cluster (glyph_info ! nat (index + direction))) - int byte_index)
             else to_int32 (int (GetCurrentWordLength word_enum) - int byte_index))
      in count_characters (buffer_of word_enum)
           (map (\<lambda>i. GetCurrentWordIndex word_enum + byte_index + i) [0..<nat byte_size]) 0)"

text \<open>
  Modelled from the spec: the accessors of FontBuffer that font_manager.h defines.
  A glyph is four vertices and six indices in the index list of its atlas slice;
  the set of index lists grows when a slice is first used; a reference-counted buffer
  records the cache rows it cites.
\<close>

definition get_glyph_count :: "'f FontBuffer \<Rightarrow> nat" where
  "get_glyph_count b = length (vertices b) div 4"

definition ExpandGlyphBuffers :: "nat \<Rightarrow> 'f FontBuffer \<Rightarrow> 'f FontBuffer" where
  "ExpandGlyphBuffers n b = b\<lparr>indices := resize n [] (indices b)\<rparr>"

definition AddCacheRowReference :: "nat \<Rightarrow> 'f FontBuffer \<Rightarrow> 'f FontBuffer" where
  "AddCacheRowReference row b = b\<lparr>referencing_rows := referencing_rows b @ [row]\<rparr>"

text \<open>What CreateBuffer computes before its loop, and the variables of the loop.
  \<open>lc_buffer\<close> is the address of the FontBuffer under construction.\<close>

record 'f layout_consts =
  lc_ysize :: int
  lc_size :: "int \<times> int"
  lc_caret_info :: bool
  lc_converted_ysize :: int
  lc_scale :: 'f
  lc_multi_line :: bool
  lc_base_line :: int
  lc_pos_start :: 'f
  lc_line_height :: 'f
  lc_buffer :: nat

record 'f layout_vars =
  lv_buffer :: "'f FontBuffer"
  lv_pos :: "'f \<times> 'f"
  lv_line_width :: nat
  lv_max_line_width :: nat
  lv_total_height :: nat
  lv_lastline_must_break :: bool
  lv_first_character :: bool
  lv_initial_metrics :: FontMetrics

text \<open>Lines 389-436: the glyph has a size, and is registered in the buffer.\<close>

definition register_glyph ::
  "('f, 'c, 'e) env \<Rightarrow> 'f FontBufferParameters \<Rightarrow> 'f layout_consts \<Rightarrow> nat \<Rightarrow> 'f GlyphCacheEntry
     \<Rightarrow> 'f \<times> 'f \<Rightarrow> 'f layout_vars \<Rightarrow> ('f, 'c, 'e) FontManager
     \<Rightarrow> fault + ('f layout_vars \<times> ('f, 'c, 'e) FontManager)"
where
  "register_glyph env parameters lc code_point cache pos v s =
     (let b1 = AddCodepoint code_point (lv_buffer v);
          glyph = glyph_slot (env_fo env) (fonts s) code_point;
          new_metrics = (case UpdateMetrics glyph (lv_initial_metrics v) of
                           Some m \<Rightarrow> m | None \<Rightarrow> lv_initial_metrics v);
          slice = snd (snd (entry_pos cache))
      in if \<not> slice < length (atlas_indices s) then Inl OutOfRange
         else
           let (slice_idx, s1, b2) =
                 (if atlas_indices s ! slice = kInvalidSliceIndex
                  then (length (slices b1),
                        s\<lparr>atlas_indices := (atlas_indices s)[slice := int (length (slices b1))]\<rparr>,
                        (ExpandGlyphBuffers (length (slices b1) + 1) b1)
                          \<lparr>slices := slices b1 @ [slice]\<rparr>)
                  else (nat (atlas_indices s ! slice), s, b1));
               current_glyph_count = get_glyph_count b2
           in if \<not> slice_idx < length (indices b2) then Inl OutOfRange
              else
                let b3 = b2\<lparr>indices := (indices b2)
                            [slice_idx := indices b2 ! slice_idx @
                               map (\<lambda>index. (index + current_glyph_count * 4) mod 2 ^ 16)
                                 [0, 1, 2, 1, 3, 2]]\<rparr>;
                    b4 = AddVertices (env_fl env) pos (lc_base_line lc) (lc_scale lc) cache b3
                in if get_ref_count_flag parameters
                   then Inr (v\<lparr>lv_buffer := AddCacheRowReference (entry_row cache) b4,
                               lv_initial_metrics := new_metrics\<rparr>,
                             s1\<lparr>glyph_cache := row_AddRef (env_co env) (glyph_cache s1)
                                                  (entry_row cache) (lc_buffer lc)\<rparr>)
                   else Inr (v\<lparr>lv_buffer := b4, lv_initial_metrics := new_metrics\<rparr>, s1))"

text \<open>The loop that adds the carets of a glyph (lines 458-463).\<close>

fun add_caret_positions ::
  "'f float_ops \<Rightarrow> ('f \<times> 'f) list \<Rightarrow> 'f FontBuffer \<Rightarrow> fault + 'f FontBuffer"
where
  "add_caret_positions ops [] b = Inr b"
| "add_caret_positions ops (p # ps) b =
     (case AddCaretPosition ops p b of
        Inl f \<Rightarrow> Inl f
      | Inr b1 \<Rightarrow> add_caret_positions ops ps b1)"

text \<open>Lines 379-464: one glyph whose cache entry was fetched; \<open>last_glyph\<close> tells
  whether it is the last one of the word.\<close>

definition place_glyph ::
  "('f, 'c, 'e) env \<Rightarrow> 'f FontBufferParameters \<Rightarrow> 'f layout_consts \<Rightarrow> WordEnumerator
     \<Rightarrow> hb_glyph list \<Rightarrow> nat \<Rightarrow> bool \<Rightarrow> 'f GlyphCacheEntry \<Rightarrow> 'f layout_vars
     \<Rightarrow> ('f, 'c, 'e) FontManager \<Rightarrow> fault + ('f layout_vars \<times> ('f, 'c, 'e) FontManager)"
where
  "place_glyph env parameters lc word_enum glyph_info idx last_glyph cache v s =
     (let ops = env_fl env;
          g = glyph_info ! idx;
          unit = f_of_int ops (int (kFreeTypeUnit env));
          pos_advance =
            (f_div ops (f_mul ops (f_of_int ops (x_advance g)) (lc_scale lc)) unit,
             f_div ops (f_mul ops (f_of_int ops (- y_advance g)) (lc_scale lc)) unit);
          pos1 = (if layout_direction s = kTextLayoutDirectionRTL
                  then vec2_sub ops (lv_pos v) pos_advance else lv_pos v)
      in case (if fst (entry_size cache) \<noteq> 0 \<and> snd (entry_size cache) \<noteq> 0
               then register_glyph env parameters lc (codepoint g) cache pos1 v s
               else Inr (v, s)) of
           Inl f \<Rightarrow> Inl f
         | Inr (v1, s1) \<Rightarrow>
             let pos2 = (if layout_direction s = kTextLayoutDirectionLTR
                         then vec2_add ops pos1 pos_advance else pos1);
                 end_of_line = (lv_lastline_must_break v \<and> last_glyph)
             in if lc_caret_info lc \<and> \<not> end_of_line then
                  (case GetCaretPosCount (layout_direction s) word_enum glyph_info
                          (int (length glyph_info)) (int idx) of
                     Inl f \<Rightarrow> Inl f
                   | Inr carets \<Rightarrow>
                       let idx_advance =
                             (if layout_direction s = kTextLayoutDirectionRTL then - 1 else 1);
                           scaled_offset =
                             f_mul ops (f_of_int ops (fst (entry_offset cache))) (lc_scale lc);
                           scaled_base_line =
                             f_mul ops (f_of_int ops (lc_base_line lc)) (lc_scale lc)
                       in (case add_caret_positions ops
                                  (map (\<lambda>caret. vec2_add ops pos2
                                          (f_mul ops (f_of_int ops idx_advance)
                                             (f_add ops (f_sub ops scaled_offset (fst pos_advance))
                                                (f_div ops
                                                   (f_mul ops (f_of_int ops caret) (fst pos_advance))
                                                   (f_of_int ops carets))),
                                           scaled_base_line))
                                     [1..carets])
                                  (lv_buffer v1) of
                             Inl f \<Rightarrow> Inl f
                           | Inr b \<Rightarrow> Inr (v1\<lparr>lv_buffer := b, lv_pos := pos2\<rparr>, s1)))
                else Inr (v1\<lparr>lv_pos := pos2\<rparr>, s1))"

text \<open>
  The loop over the shaped glyphs of a word (lines 366-465), over the indices of the
  glyph array in the order of the layout direction. The result is nothing when
  GetCachedEntry returns null: the HarfBuzz buffer is cleared and CreateBuffer returns
  null.
\<close>

fun layout_glyphs ::
  "('f, 'c, 'e) env \<Rightarrow> 'f FontBufferParameters \<Rightarrow> 'f layout_consts \<Rightarrow> WordEnumerator
     \<Rightarrow> hb_glyph list \<Rightarrow> nat list \<Rightarrow> 'f layout_vars \<Rightarrow> ('f, 'c, 'e) FontManager
     \<Rightarrow> fault + ('f layout_vars option \<times> ('f, 'c, 'e) FontManager)"
where
  "layout_glyphs env parameters lc word_enum glyph_info [] v s = Inr (Some v, s)"
| "layout_glyphs env parameters lc word_enum glyph_info (idx # rest) v s =
     (if codepoint (glyph_info ! idx) = 0
      then layout_glyphs env parameters lc word_enum glyph_info rest v s
      else
        (case GetCachedEntry env (codepoint (glyph_info ! idx)) (lc_converted_ysize lc)
                (get_glyph_flags parameters) s of
           Inl f \<Rightarrow> Inl f
         | Inr (None, s1) \<Rightarrow> Inr (None, hb_buffer_clear_contents s1)
         | Inr (Some cache, s1) \<Rightarrow>
             (case place_glyph env parameters lc word_enum glyph_info idx (rest = []) cache v s1 of
                Inl f \<Rightarrow> Inl f
              | Inr (v1, s2) \<Rightarrow>
                  layout_glyphs env parameters lc word_enum glyph_info rest v1 s2)))"

definition glyph_order :: "TextLayoutDirection \<Rightarrow> nat \<Rightarrow> nat list" where
  "glyph_order direction glyph_count =
     (if direction = kTextLayoutDirectionRTL then rev [0..<glyph_count] else [0..<glyph_count])"

text \<open>How one pass of the loop over the words ends: with the next word, with the
  \<open>break\<close> of line 327, or with \<open>return nullptr\<close> (line 376).\<close>

datatype ('v, 's) word_outcome = Continue 'v 's | Break 'v 's | ReturnNull 's

text \<open>Lines 303-346: a word of a multi-line text is measured, and the pending line
  is committed when the word does not fit or the previous word forced a break.\<close>

definition wrap_word ::
  "('f, 'c, 'e) env \<Rightarrow> string \<Rightarrow> 'f FontBufferParameters \<Rightarrow> 'f layout_consts \<Rightarrow> WordEnumerator
     \<Rightarrow> 'f layout_vars \<Rightarrow> ('f, 'c, 'e) FontManager
     \<Rightarrow> fault + ('f layout_vars, ('f, 'c, 'e) FontManager) word_outcome"
where
  "wrap_word env text parameters lc word_enum v s =
     (let ops = env_fl env; unit = kFreeTypeUnit env in
      case LayoutText env
             (take (GetCurrentWordLength word_enum) (drop (GetCurrentWordIndex word_enum) text)) s of
        (w, s1) \<Rightarrow>
          let word_width = to_uint32 (f_to_int ops (f_mul ops (f_of_int ops (int w)) (lc_scale lc)))
          in case (if lv_lastline_must_break v \<or>
                      ((lv_line_width v + word_width) mod 2 ^ 32) div unit
                        > to_uint32 (fst (lc_size lc))
                   then
                     (case UpdateLine ops parameters (layout_direction s1)
                             (to_int32 (int (lv_line_width v div unit)))
                             (lv_lastline_must_break v) (lv_buffer v) of
                        Inl f \<Rightarrow> Inl f
                      | Inr b \<Rightarrow>
                          let total_height =
                                (lv_total_height v + to_uint32 (f_to_int ops (lc_line_height lc)))
                                  mod 2 ^ 32;
                              v1 = v\<lparr>lv_buffer := b,
                                     lv_pos := (lc_pos_start lc,
                                                f_add ops (snd (lv_pos v)) (lc_line_height lc)),
                                     lv_total_height := total_height,
                                     lv_first_character := lv_lastline_must_break v\<rparr>
                          in if snd (lc_size lc) \<noteq> 0 \<and>
                                total_height > to_uint32 (snd (lc_size lc)) \<and>
                                \<not> lc_caret_info lc
                             then Inr (Break v1 (hb_buffer_clear_contents s1))
                             else Inr (Continue (v1\<lparr>lv_line_width := word_width\<rparr>)
                                    (if word_width > (to_uint32 (fst (lc_size lc)) * unit) mod 2 ^ 32
                                     then add_log LogInfo_WordExceedsLine s1 else s1)))
                   else Inr (Continue
                          (v\<lparr>lv_line_width := (lv_line_width v + word_width) mod 2 ^ 32\<rparr>) s1)) of
               Inl f \<Rightarrow> Inl f
             | Inr (Continue v2 s2) \<Rightarrow>
                 (case CurrentWordMustBreak word_enum of
                    Inl f \<Rightarrow> Inl f
                  | Inr must_break \<Rightarrow>
                      Inr (Continue
                             (v2\<lparr>lv_max_line_width := max (lv_max_line_width v2) (lv_line_width v2),
                                 lv_lastline_must_break := must_break\<rparr>) s2))
             | Inr other \<Rightarrow> Inr other)"

text \<open>Lines 295-475: the body of the loop over the words.\<close>

definition layout_word ::
  "('f, 'c, 'e) env \<Rightarrow> string \<Rightarrow> nat \<Rightarrow> 'f FontBufferParameters \<Rightarrow> 'f layout_consts
     \<Rightarrow> WordEnumerator \<Rightarrow> 'f layout_vars \<Rightarrow> ('f, 'c, 'e) FontManager
     \<Rightarrow> fault + ('f layout_vars, ('f, 'c, 'e) FontManager) word_outcome"
where
  "layout_word env text len parameters lc word_enum v s =
     (let ops = env_fl env in
      case (if \<not> lc_multi_line lc then
              (case LayoutText env (take len text) s of
                 (w, s1) \<Rightarrow>
                   let max_line_width =
                         to_uint32 (f_to_int ops (f_mul ops (f_of_int ops (int w)) (lc_scale lc)))
                   in Inr (Continue
                        (v\<lparr>lv_max_line_width := max_line_width,
                           lv_pos := (if layout_direction s1 = kTextLayoutDirectionRTL \<and>
                                         fst (lc_size lc) = 0
                                      then (f_of_int ops (int (max_line_width div kFreeTypeUnit env)),
                                            snd (lv_pos v))
                                      else lv_pos v)\<rparr>) s1))
            else wrap_word env text parameters lc word_enum v s) of
        Inl f \<Rightarrow> Inl f
      | Inr (Continue v1 s1) \<Rightarrow>
          (case (if lc_caret_info lc \<and> lv_first_character v1 then
                   (case AddCaretPosition ops
                           (vec2_add ops (lv_pos v1)
                              (f_of_int ops 0,
                               f_mul ops (f_of_int ops (lc_base_line lc)) (lc_scale lc)))
                           (lv_buffer v1) of
                      Inl f \<Rightarrow> Inl f
                    | Inr b \<Rightarrow> Inr (v1\<lparr>lv_buffer := b, lv_first_character := False\<rparr>))
                 else Inr v1) of
             Inl f \<Rightarrow> Inl f
           | Inr v2 \<Rightarrow>
               (case layout_glyphs env parameters lc word_enum (harfbuzz_buf s1)
                       (glyph_order (layout_direction s1) (length (harfbuzz_buf s1))) v2 s1 of
                  Inl f \<Rightarrow> Inl f
                | Inr (None, s2) \<Rightarrow> Inr (ReturnNull s2)
                | Inr (Some v3, s2) \<Rightarrow>
                    Inr (Continue
                           (v3\<lparr>lv_buffer := (AddWordBoundary parameters (lv_buffer v3))
                                 \<lparr>revision := cache_get_revision (env_co env) (glyph_cache s2)\<rparr>\<rparr>)
                           (hb_buffer_clear_contents s2))))
      | Inr other \<Rightarrow> Inr other)"

text \<open>The loop over the words ends: each Advance that returns true uses up the
  single pass of single-line mode or moves the end of the current word forward.\<close>

definition words_left :: "WordEnumerator \<Rightarrow> nat" where
  "words_left e =
     (if single_line_mode e \<and> \<not> finished e then length (buffer_of e) + 2
      else length (buffer_of e) + 1 - (current_index e + current_length e))"

lemma Advance_words_left:
  assumes "Advance e = (True, e')"
  shows "words_left e' < words_left e"
proof (cases "single_line_mode e \<and> \<not> finished e")
  case True
  with assms have "e' = e\<lparr>finished := True, current_length := length (buffer_of e)\<rparr>"
    by (simp add: Advance_def)
  with True show ?thesis by (simp add: words_left_def)
next
  case False
  let ?c = "current_index e + current_length e"
  from False assms have lt: "?c < length (buffer_of e)" and nf: "\<not> finished e"
    by (auto simp: Advance_def Let_def split: if_splits)
  with False assms have e': "e' = e\<lparr>current_index := ?c,
      current_length := scan_break (buffer_of e) ?c - ?c + 1\<rparr>"
    by (auto simp: Advance_def Let_def split: if_splits)
  from False nf have "\<not> single_line_mode e" by simp
  with lt nf show ?thesis by (simp add: e' words_left_def)
qed

text \<open>The loop over the words (lines 294-475). The result is the variables of the
  loop at its end, or nothing when CreateBuffer returns null.\<close>

function layout_words ::
  "('f, 'c, 'e) env \<Rightarrow> string \<Rightarrow> nat \<Rightarrow> 'f FontBufferParameters \<Rightarrow> 'f layout_consts
     \<Rightarrow> WordEnumerator \<Rightarrow> 'f layout_vars \<Rightarrow> ('f, 'c, 'e) FontManager
     \<Rightarrow> fault + ('f layout_vars option \<times> ('f, 'c, 'e) FontManager)"
where
  "layout_words env text len parameters lc word_enum v s =
     (case Advance word_enum of
        (False, e) \<Rightarrow> Inr (Some v, s)
      | (True, e) \<Rightarrow>
          (case layout_word env text len parameters lc e v s of
             Inl f \<Rightarrow> Inl f
           | Inr (Continue v1 s1) \<Rightarrow> layout_words env text len parameters lc e v1 s1
           | Inr (Break v1 s1) \<Rightarrow> Inr (Some v1, s1)
           | Inr (ReturnNull s1) \<Rightarrow> Inr (None, s1)))"
  by pat_completeness auto
termination
  by (relation "measure (\<lambda>(env, text, len, parameters, lc, word_enum, v, s). words_left word_enum)")
     (auto simp: Advance_words_left)

declare layout_words.simps [simp del]

text \<open>Lines 477-510: the end of CreateBuffer, after the loop. \<open>insert\<close> of the map
  keeps an entry that is already there.\<close>

definition finish_buffer ::
  "('f, 'c, 'e) env \<Rightarrow> 'f FontBufferParameters \<Rightarrow> 'f layout_consts \<Rightarrow> 'f layout_vars
     \<Rightarrow> ('f, 'c, 'e) FontManager \<Rightarrow> fault + (nat option \<times> ('f, 'c, 'e) FontManager)"
where
  "finish_buffer env parameters lc v s =
     (let ops = env_fl env in
      case (if lc_caret_info lc
            then AddCaretPosition ops
                   (vec2_add ops (lv_pos v)
                      (f_of_int ops 0, f_mul ops (f_of_int ops (lc_base_line lc)) (lc_scale lc)))
                   (lv_buffer v)
            else Inr (lv_buffer v)) of
        Inl f \<Rightarrow> Inl f
      | Inr b1 \<Rightarrow>
          (case UpdateLine ops parameters (layout_direction s)
                  (to_int32 (int (lv_line_width v div kFreeTypeUnit env))) True b1 of
             Inl f \<Rightarrow> Inl f
           | Inr b2 \<Rightarrow>
               let b3 = b2\<lparr>buffer_size :=
                              (to_int32 (int (lv_max_line_width v div kFreeTypeUnit env)),
                               to_int32 (int (lv_total_height v))),
                            metrics := lv_initial_metrics v,
                            ref_count := 1,
                            pass := (if current_pass s \<noteq> kRenderPass env then current_pass s
                                     else pass b2)\<rparr>
               in if \<not> Verify env b3 then Inl AssertionFailure
                  else
                    (case map_buffers s parameters of
                       None \<Rightarrow>
                         Inr (Some (lc_buffer lc),
                              s\<lparr>map_buffers := (map_buffers s)(parameters \<mapsto> lc_buffer lc),
                                buffers := (buffers s)
                                  (lc_buffer lc \<mapsto> b3\<lparr>iterator := Some parameters\<rparr>)\<rparr>)
                     | Some existing \<Rightarrow>
                         (case buffers s existing of
                            None \<Rightarrow> Inl InvalidPointer
                          | Some be \<Rightarrow>
                              Inr (Some existing,
                                   s\<lparr>buffers := (buffers s)
                                       (existing \<mapsto> be\<lparr>iterator := Some parameters\<rparr>)\<rparr>)))))"

text \<open>Lines 236-253: a buffer of these parameters exists already.\<close>

definition reuse_buffer ::
  "('f, 'c, 'e) env \<Rightarrow> 'f FontBufferParameters \<Rightarrow> int \<Rightarrow> nat \<Rightarrow> ('f, 'c, 'e) FontManager
     \<Rightarrow> fault + (nat option \<times> ('f, 'c, 'e) FontManager)"
where
  "reuse_buffer env parameters converted_ysize it s =
     (case buffers s it of
        None \<Rightarrow> Inl InvalidPointer
      | Some b \<Rightarrow>
          let s1 = (if current_pass s \<noteq> kRenderPass env
                    then s\<lparr>buffers := (buffers s)(it \<mapsto> b\<lparr>pass := current_pass s\<rparr>)\<rparr>
                    else s)
          in (case UpdateUV env converted_ysize (get_glyph_flags parameters) it s1 of
                Inl f \<Rightarrow> Inl f
              | Inr (ret, s2) \<Rightarrow>
                  if get_ref_count_flag parameters then
                    (case ret of
                       None \<Rightarrow> Inl NullDereference
                     | Some r \<Rightarrow>
                         (case buffers s2 r of
                            None \<Rightarrow> Inl InvalidPointer
                          | Some br \<Rightarrow>
                              Inr (Some r,
                                   s2\<lparr>buffers := (buffers s2)
                                        (r \<mapsto> br\<lparr>ref_count := ref_count br + 1\<rparr>)\<rparr>)))
                  else Inr (ret, s2)))"

text \<open>Lines 255-291: the FontBuffer is made, the line breaks of the text are
  classified, and the variables of the loop over the words are set up.\<close>

definition begin_layout ::
  "('f, 'c, 'e) env \<Rightarrow> string \<Rightarrow> nat \<Rightarrow> 'f FontBufferParameters \<Rightarrow> int \<Rightarrow> int
     \<Rightarrow> ('f, 'c, 'e) FontManager
     \<Rightarrow> 'f layout_consts \<times> WordEnumerator \<times> 'f layout_vars \<times> ('f, 'c, 'e) FontManager"
where
  "begin_layout env text len parameters ysize converted_ysize s =
     (let ops = env_fl env;
          s1 = s\<lparr>fonts := SetPixelSize (env_fo env) (fonts s) converted_ysize,
                 next_buffer := next_buffer s + 1\<rparr>;
          s2 = (if len \<noteq> 0
                then s1\<lparr>wordbreak_info :=
                          resize len LINEBREAK_NOBREAK
                            (set_linebreaks_utf8 env (take len text) (language s1))\<rparr>
                else s1);
          word_enum = WordEnumerator_new (wordbreak_info s2)
                        (\<not> get_multi_line_setting parameters);
          base = GetBaseLine (env_fo env) (fonts s2) ysize;
          pos_start = (if layout_direction s2 = kTextLayoutDirectionRTL
                       then f_of_int ops (fst (get_size parameters))
                       else f_of_int ops 0);
          lc = \<lparr>lc_ysize = ysize, lc_size = get_size parameters,
                lc_caret_info = get_caret_info_flag parameters,
                lc_converted_ysize = converted_ysize,
                lc_scale = f_div ops (f_of_int ops ysize) (f_of_int ops converted_ysize),
                lc_multi_line = get_multi_line_setting parameters,
                lc_base_line = base, lc_pos_start = pos_start,
                lc_line_height = f_mul ops (f_of_int ops ysize) (line_height s2),
                lc_buffer = next_buffer s\<rparr>;
          v = \<lparr>lv_buffer = FontBuffer_new len (get_caret_info_flag parameters),
               lv_pos = (pos_start, f_of_int ops 0),
               lv_line_width = 0,
               lv_max_line_width = get_line_length parameters,
               lv_total_height = to_uint32 ysize,
               lv_lastline_must_break = False,
               lv_first_character = True,
               lv_initial_metrics =
                 \<lparr>base_line = base, internal_leading = 0, ascender = base,
                  descender = base - ysize, external_leading = 0\<rparr>\<rparr>;
          s3 = s2\<lparr>atlas_indices :=
                    replicate (length (atlas_indices s2)) kInvalidSliceIndex\<rparr>
      in (lc, word_enum, v, s3))"

definition CreateBuffer ::
  "('f, 'c, 'e) env \<Rightarrow> string \<Rightarrow> nat \<Rightarrow> 'f FontBufferParameters \<Rightarrow> ('f, 'c, 'e) FontManager
     \<Rightarrow> fault + (nat option \<times> ('f, 'c, 'e) FontManager)"
where
  "CreateBuffer env text len parameters s =
     (let ysize = f_to_int (env_fl env) (get_font_size parameters);
          converted_ysize = ConvertSize s ysize
      in case map_buffers s parameters of
           Some it \<Rightarrow> reuse_buffer env parameters converted_ysize it s
         | None \<Rightarrow>
             (case current_font s of
                None \<Rightarrow> Inl NullDereference
              | Some font \<Rightarrow>
                  (case begin_layout env text len parameters ysize converted_ysize s of
                     (lc, word_enum, v, s3) \<Rightarrow>
                       (case layout_words env text len parameters lc word_enum v s3 of
                          Inl f \<Rightarrow> Inl f
                        | Inr (None, s4) \<Rightarrow> Inr (None, s4)
                        | Inr (Some v1, s4) \<Rightarrow> finish_buffer env parameters lc v1 s4))))"

text \<open>FontManager::GetBuffer (lines 206-224). CreateBuffer takes the length as a
  \<open>uint32_t\<close>.\<close>

definition GetBuffer ::
  "('f, 'c, 'e) env \<Rightarrow> string \<Rightarrow> nat \<Rightarrow> 'f FontBufferParameters \<Rightarrow> ('f, 'c, 'e) FontManager
     \<Rightarrow> fault + (nat option \<times> ('f, 'c, 'e) FontManager)"
where
  "GetBuffer env text len parameter s =
     (case CreateBuffer env text (len mod 2 ^ 32) parameter s of
        Inl f \<Rightarrow> Inl f
      | Inr (Some buffer, s1) \<Rightarrow> Inr (Some buffer, s1)
      | Inr (None, s1) \<Rightarrow>
          (case FlushAndUpdate env s1 of
             Inl f \<Rightarrow> Inl f
           | Inr s2 \<Rightarrow>
               (case CreateBuffer env text (len mod 2 ^ 32) parameter s2 of
                  Inl f \<Rightarrow> Inl f
                | Inr (Some buffer, s3) \<Rightarrow> Inr (Some buffer, s3)
                | Inr (None, s3) \<Rightarrow> Inr (None, add_log LogError_TextDoesNotFit s3))))"

section \<open>Notions used in the statements\<close>

text \<open>The invariant of the enumerator in multi-line mode, over the buffer \<open>buf\<close>.\<close>

definition multi_line_inv :: "break_class list \<Rightarrow> WordEnumerator \<Rightarrow> bool" where
  "multi_line_inv buf e \<longleftrightarrow>
     buffer_of e = buf \<and> \<not> single_line_mode e \<and> \<not> finished e \<and>
     (current_index e + current_length e \<le> length buf \<or> length buf \<le> current_index e)"

text \<open>
  The number of recorded word boundaries at or before an index; the invariant of the
  boundary index in the loops of UpdateLine; the sign of the layout direction; what
  CreateBuffer records as the boundaries of a line (ascending indices from the start of
  the line on, the last one at the end of the line); the slack of a line; and a buffer
  that grew from another one by appending code points, vertices and carets.
\<close>

definition boundaries_upto :: "nat list \<Rightarrow> nat \<Rightarrow> nat" where
  "boundaries_upto wb idx = length (filter (\<lambda>w. w \<le> idx) wb)"

definition boundary_inv :: "nat list \<Rightarrow> nat \<Rightarrow> nat \<Rightarrow> bool" where
  "boundary_inv wb bi idx \<longleftrightarrow>
     bi \<le> length wb \<and> (\<forall>k<bi. wb ! k < idx) \<and> (\<forall>k. bi \<le> k \<and> k < length wb \<longrightarrow> idx \<le> wb ! k)"

definition dir_sign :: "TextLayoutDirection \<Rightarrow> int" where
  "dir_sign d = (if d = kTextLayoutDirectionRTL then - 1 else 1)"

definition boundaries_recorded :: "nat list \<Rightarrow> nat \<Rightarrow> nat \<Rightarrow> bool" where
  "boundaries_recorded wb start n \<longleftrightarrow>
     wb \<noteq> [] \<and> sorted_wrt (<) wb \<and> (\<forall>w\<in>set wb. start \<le> w) \<and> last wb = n"

definition slack :: "'f FontBufferParameters \<Rightarrow> int \<Rightarrow> int" where
  "slack parameters line_width = fst (get_size parameters) - line_width"

definition appended_to :: "'f FontBuffer \<Rightarrow> 'f FontBuffer \<Rightarrow> bool" where
  "appended_to b1 b2 \<longleftrightarrow>
     line_start_index b2 = line_start_index b1 \<and>
     line_start_caret_index b2 = line_start_caret_index b1 \<and>
     take (length (code_points b1)) (code_points b2) = code_points b1 \<and>
     take (length (vertices b1)) (vertices b2) = vertices b1 \<and>
     take (length (caret_positions b1)) (caret_positions b2) = caret_positions b1"

text \<open>The number of flushes of the glyph cache, and of warnings about a second subpass,
  that the manager has logged.\<close>

definition flushes :: "('f, 'c, 'e) FontManager \<Rightarrow> nat" where
  "flushes s = count_list (event_log s) Call_CacheFlush"

definition subpass_warnings :: "('f, 'c, 'e) FontManager \<Rightarrow> nat" where
  "subpass_warnings s = count_list (event_log s) LogInfo_MultipleSubpasses"

text \<open>
  The number of glyph fetches that failed, by the log; the parts of the manager that
  fetching a glyph leaves alone; fetching a list of code points from the cache, one
  after the other; the corner of a UV rectangle that vertex \<open>k\<close> of a glyph gets; and
  two buffers that differ at most in the UV coordinates of their vertices and in their
  revision.
\<close>

fun is_fetch_failure :: "event \<Rightarrow> bool" where
  "is_fetch_failure (LogInfo_CantLoadGlyph c) = True"
| "is_fetch_failure LogInfo_GlyphCacheFull = True"
| "is_fetch_failure ev = False"

definition fetch_failures :: "('f, 'c, 'e) FontManager \<Rightarrow> nat" where
  "fetch_failures s = length (filter is_fetch_failure (event_log s))"

definition unchanged_outside_cache ::
  "('f, 'c, 'e) FontManager \<Rightarrow> ('f, 'c, 'e) FontManager \<Rightarrow> bool"
where
  "unchanged_outside_cache s s' \<longleftrightarrow>
     map_buffers s' = map_buffers s \<and> buffers s' = buffers s \<and>
     next_buffer s' = next_buffer s \<and> current_font s' = current_font s \<and>
     current_pass s' = current_pass s \<and>
     current_atlas_revision s' = current_atlas_revision s \<and>
     layout_direction s' = layout_direction s \<and>
     flushes s' = flushes s"

fun resolve_code_points ::
  "('f, 'c, 'e) env \<Rightarrow> int \<Rightarrow> GlyphFlags \<Rightarrow> nat list \<Rightarrow> ('f, 'c, 'e) FontManager
     \<Rightarrow> fault + ('f GlyphCacheEntry list option \<times> ('f, 'c, 'e) FontManager)"
where
  "resolve_code_points env ysize flags [] s = Inr (Some [], s)"
| "resolve_code_points env ysize flags (code_point # rest) s =
     (case GetCachedEntry env code_point ysize flags s of
        Inl f \<Rightarrow> Inl f
      | Inr (None, s1) \<Rightarrow> Inr (None, s1)
      | Inr (Some cache, s1) \<Rightarrow>
          (case resolve_code_points env ysize flags rest s1 of
             Inl f \<Rightarrow> Inl f
           | Inr (None, s2) \<Rightarrow> Inr (None, s2)
           | Inr (Some entries, s2) \<Rightarrow> Inr (Some (cache # entries), s2)))"

definition uv_corner :: "nat \<Rightarrow> 'f \<times> 'f \<times> 'f \<times> 'f \<Rightarrow> 'f \<times> 'f" where
  "uv_corner k c =
     (case c of (ux, uy, uz, uw) \<Rightarrow>
        if k = 0 then (ux, uy) else if k = 1 then (ux, uw) else if k = 2 then (uz, uy)
        else (uz, uw))"

definition same_geometry :: "'f FontBuffer \<Rightarrow> 'f FontBuffer \<Rightarrow> bool" where
  "same_geometry b b' \<longleftrightarrow>
     map position (vertices b') = map position (vertices b) \<and>
     b'\<lparr>vertices := vertices b, revision := revision b\<rparr> = b"

text \<open>
  A step of the layout that leaves the manager alone outside the glyph cache and adds
  \<open>k\<close> failed fetches to the log; the manager that an outcome of the loop over the words
  carries, and whether the outcome is the null return; and two buffers that differ at
  most in the UV coordinates of their vertices, their revision, their pass and their
  reference count: the second is the first without a new layout.
\<close>

definition layout_frame ::
  "('f, 'c, 'e) FontManager \<Rightarrow> ('f, 'c, 'e) FontManager \<Rightarrow> nat \<Rightarrow> bool"
where
  "layout_frame s s' k \<longleftrightarrow>
     unchanged_outside_cache s s' \<and> fetch_failures s' = fetch_failures s + k"

definition outcome_manager :: "('v, 's) word_outcome \<Rightarrow> 's" where
  "outcome_manager out = (case out of Continue v s \<Rightarrow> s | Break v s \<Rightarrow> s | ReturnNull s \<Rightarrow> s)"

definition returns_null :: "('v, 's) word_outcome \<Rightarrow> bool" where
  "returns_null out = (case out of ReturnNull s \<Rightarrow> True | _ \<Rightarrow> False)"

definition same_layout :: "'f FontBuffer \<Rightarrow> 'f FontBuffer \<Rightarrow> bool" where
  "same_layout b b' \<longleftrightarrow>
     map position (vertices b') = map position (vertices b) \<and>
     b'\<lparr>vertices := vertices b, revision := revision b, pass := pass b,
        ref_count := ref_count b\<rparr> = b"

section \<open>Concrete inputs\<close>

text \<open>A float arithmetic on integers, and buffers of one line, to evaluate the model on.\<close>

definition exact_ops :: "int float_ops" where
  "exact_ops = \<lparr>f_of_int = (\<lambda>i. i), f_to_int = (\<lambda>x. x), f_add = (+), f_sub = (-),
                 f_mul = (*), f_div = (div)\<rparr>"

definition justify_parameters :: "int FontBufferParameters" where
  "justify_parameters =
     \<lparr>get_font_id = 1, get_text_id = 1, get_font_size = 10, get_size = (105, 0),
      get_text_alignment = \<lparr>align_part = kTextAlignmentLeft, justify_part = True\<rparr>,
      get_glyph_flags = \<lparr>kGlyphFlagsOuterSDF = False, kGlyphFlagsInnerSDF = False\<rparr>,
      get_caret_info_flag = True, get_ref_count_flag = False,
      get_multi_line_setting = True, get_line_length = 0\<rparr>"

definition glyph_at_origin :: "int FontVertex list" where
  "glyph_at_origin = replicate 4 \<lparr>position = (0, 0, 0), uv = (0, 0)\<rparr>"

definition line_of_four :: "int FontBuffer" where
  "line_of_four = (FontBuffer_new 4 True)
     \<lparr>vertices := glyph_at_origin @ glyph_at_origin @ glyph_at_origin @ glyph_at_origin,
      code_points := [65, 66, 67, 68],
      caret_positions := [(0, 0), (0, 0), (0, 0), (0, 0)],
      word_boundary := [1, 2, 3, 4], word_boundary_caret := [1, 2, 3, 4]\<rparr>"

definition line_of_one :: "int FontBuffer" where
  "line_of_one = (FontBuffer_new 1 False)
     \<lparr>vertices := glyph_at_origin, code_points := [65], word_boundary := [1],
      word_boundary_caret := [0]\<rparr>"

definition vertices_x :: "int FontBuffer \<Rightarrow> int list" where
  "vertices_x b = map (\<lambda>v. fst (position v)) (vertices b)"

definition committed_line :: "int FontBuffer" where
  "committed_line =
     line_of_one\<lparr>vertices := replicate 4 \<lparr>position = (5, 0, 0), uv = (0, 0)\<rparr>,
                 line_start_index := 1, word_boundary := [], word_boundary_caret := []\<rparr>"

definition next_line :: "int FontBuffer" where
  "next_line =
     committed_line\<lparr>vertices := vertices committed_line @ glyph_at_origin,
                    code_points := [65, 66], word_boundary := [2], word_boundary_caret := [0]\<rparr>"

definition carets_x :: "int FontBuffer \<Rightarrow> int list" where
  "carets_x b = map fst (caret_positions b)"

text \<open>
  A glyph cache of a fixed number of entries in one slice, which is full when it holds
  that many and which a flush empties; a font whose glyphs are 8 by 8 pixels; and a
  manager over them.
\<close>

record tiny_cache =
  tc_entries :: "(GlyphKey \<times> int GlyphCacheEntry) list"
  tc_capacity :: nat
  tc_revision :: nat
  tc_dirty :: bool

definition tiny_cache_ops :: "(int, tiny_cache) cache_ops" where
  "tiny_cache_ops =
     \<lparr>cache_Find = (\<lambda>c key. map_of (tc_entries c) key),
      cache_Set = (\<lambda>c image key code_point offset sz.
         if length (tc_entries c) < tc_capacity c
         then (let entry = \<lparr>entry_code_point = code_point, entry_offset = offset,
                             entry_size = sz, entry_pos = (0, 0, 0),
                             entry_uv = (int (length (tc_entries c)), 0,
                                         int (length (tc_entries c)) + 1, 1),
                             entry_row = 0\<rparr>
               in (Some entry,
                   c\<lparr>tc_entries := (key, entry) # tc_entries c,
                     tc_revision := tc_revision c + 1, tc_dirty := True\<rparr>))
         else (None, c)),
      cache_Flush = (\<lambda>c bs. (c\<lparr>tc_entries := [], tc_revision := tc_revision c + 1\<rparr>, bs)),
      cache_Update = (\<lambda>c. c),
      cache_get_revision = tc_revision,
      cache_get_dirty_state = tc_dirty,
      cache_set_dirty_state = (\<lambda>c d. c\<lparr>tc_dirty := d\<rparr>),
      cache_get_num_slices = (\<lambda>c. 1),
      sdf_Compute = (\<lambda>c entry g flags. c),
      row_AddRef = (\<lambda>c row buffer. c),
      row_Release = (\<lambda>c row buffer. c)\<rparr>"

definition tiny_font_ops :: "unit font_ops" where
  "tiny_font_ops =
     \<lparr>SetPixelSize = (\<lambda>e ysize. e),
      GetBaseLine = (\<lambda>e ysize. ysize),
      GetFontId = (\<lambda>e code_point. 1),
      FT_Load_Glyph = (\<lambda>e code_point. (False, e)),
      glyph_slot = (\<lambda>e code_point.
         \<lparr>bitmap_left = 0, bitmap_top = 8, bitmap_width = 8, bitmap_rows = 8,
          bitmap_buffer = []\<rparr>),
      hb_shape = (\<lambda>e buf direction scr text.
         buf @ map (\<lambda>ch. \<lparr>codepoint = of_char ch, cluster = 0, x_advance = 512,
                           y_advance = 0\<rparr>) text)\<rparr>"

definition tiny_env :: "(int, tiny_cache, unit) env" where
  "tiny_env =
     \<lparr>env_fl = exact_ops, env_co = tiny_cache_ops, env_fo = tiny_font_ops,
      set_linebreaks_utf8 = (\<lambda>text lang.
         map (\<lambda>ch. if ch = CHR '' '' then LINEBREAK_ALLOWBREAK else LINEBREAK_NOBREAK)
           (butlast text) @ [LINEBREAK_MUSTBREAK]),
      Verify = (\<lambda>b. length (vertices b) = 4 * length (code_points b)),
      kFreeTypeUnit = 64, kRenderPass = - 1, kGlyphCachePaddingSDF = 4\<rparr>"

definition tiny_manager :: "nat \<Rightarrow> (int, tiny_cache, unit) FontManager" where
  "tiny_manager capacity =
     \<lparr>glyph_cache = \<lparr>tc_entries = [], tc_capacity = capacity, tc_revision = 0,
                     tc_dirty = False\<rparr>,
      fonts = (), current_font = Some 1, harfbuzz_buf = [],
      current_atlas_revision = 0, current_pass = 0,
      layout_direction = kTextLayoutDirectionLTR, script = 0, language = ''en'',
      line_height = 1, wordbreak_info = [], atlas_indices = [kInvalidSliceIndex],
      atlas_textures = [True], map_buffers = Map.empty, buffers = Map.empty,
      next_buffer = 0, size_selector = None, event_log = []\<rparr>"

definition shared_text_parameters :: "int FontBufferParameters" where
  "shared_text_parameters =
     justify_parameters\<lparr>get_text_alignment :=
         \<lparr>align_part = kTextAlignmentLeft, justify_part = False\<rparr>,
       get_size := (0, 0), get_caret_info_flag := False, get_ref_count_flag := True,
       get_multi_line_setting := False\<rparr>"

definition manager_with_buffer :: "int \<Rightarrow> (int, tiny_cache, unit) FontManager" where
  "manager_with_buffer n =
     (tiny_manager 4)
       \<lparr>map_buffers := [shared_text_parameters \<mapsto> 0],
        buffers := [0 \<mapsto> line_of_one\<lparr>ref_count := n, referencing_rows := [0],
                                      iterator := Some shared_text_parameters\<rparr>],
        next_buffer := 1\<rparr>"

definition no_glyph_flags :: GlyphFlags where
  "no_glyph_flags = \<lparr>kGlyphFlagsOuterSDF = False, kGlyphFlagsInnerSDF = False\<rparr>"

definition stale_manager :: "int FontBuffer \<Rightarrow> (int, tiny_cache, unit) FontManager" where
  "stale_manager b =
     (tiny_manager 4)
       \<lparr>glyph_cache := \<lparr>tc_entries = [], tc_capacity = 4, tc_revision = 1, tc_dirty = False\<rparr>,
        current_atlas_revision := 1,
        map_buffers := [shared_text_parameters \<mapsto> 0],
        buffers := [0 \<mapsto> b\<lparr>ref_count := 1, iterator := Some shared_text_parameters\<rparr>],
        next_buffer := 1\<rparr>"

definition uv_and_revision ::
  "nat option \<times> (int, tiny_cache, unit) FontManager
     \<Rightarrow> nat option \<times> ((int \<times> int) list \<times> int list \<times> nat \<times> nat) option"
where
  "uv_and_revision rs =
     (fst rs,
      map_option (\<lambda>b. (map uv (vertices b), vertices_x b, revision b,
                        tc_revision (glyph_cache (snd rs))))
        (buffers (snd rs) 0))"

section \<open>Properties of WordEnumerator\<close>

lemma scan_break_ge: "index \<le> scan_break buffer index"
proof (induction buffer index rule: scan_break.induct)
  case (1 buffer index)
  show ?case
  proof (cases "index < length buffer \<and> \<not> is_break (buffer ! index)")
    case True
    with 1 have "index + 1 \<le> scan_break buffer (index + 1)" by simp
    moreover from True have "scan_break buffer index = scan_break buffer (index + 1)"
      by (subst scan_break.simps) simp
    ultimately show ?thesis by simp
  next
    case False
    then show ?thesis by (subst scan_break.simps) auto
  qed
qed

lemma scan_break_le: "index \<le> length buffer \<Longrightarrow> scan_break buffer index \<le> length buffer"
proof (induction buffer index rule: scan_break.induct)
  case (1 buffer index)
  show ?case
  proof (cases "index < length buffer \<and> \<not> is_break (buffer ! index)")
    case True
    with 1 have "scan_break buffer (index + 1) \<le> length buffer" by simp
    moreover from True have "scan_break buffer index = scan_break buffer (index + 1)"
      by (subst scan_break.simps) simp
    ultimately show ?thesis by simp
  next
    case False
    with 1 show ?thesis by (subst scan_break.simps) auto
  qed
qed

lemma scan_break_found:
  "scan_break buffer index < length buffer \<Longrightarrow> is_break (buffer ! scan_break buffer index)"
proof (induction buffer index rule: scan_break.induct)
  case (1 buffer index)
  show ?case
  proof (cases "index < length buffer \<and> \<not> is_break (buffer ! index)")
    case True
    then have eq: "scan_break buffer index = scan_break buffer (index + 1)"
      by (subst scan_break.simps) simp
    with 1 True show ?thesis by simp
  next
    case False
    with 1 show ?thesis by (subst (asm) scan_break.simps, subst scan_break.simps) auto
  qed
qed

lemma scan_break_stops:
  "index \<le> j \<Longrightarrow> j < length buffer \<Longrightarrow> is_break (buffer ! j) \<Longrightarrow> scan_break buffer index \<le> j"
proof (induction buffer index rule: scan_break.induct)
  case (1 buffer index)
  show ?case
  proof (cases "index < length buffer \<and> \<not> is_break (buffer ! index)")
    case True
    then have eq: "scan_break buffer index = scan_break buffer (index + 1)"
      by (subst scan_break.simps) simp
    from True 1(3,4) 1(2) have "index \<noteq> j" by auto
    with 1(2) have "index + 1 \<le> j" by simp
    with 1 True eq show ?thesis by simp
  next
    case False
    with 1 show ?thesis by (subst scan_break.simps) auto
  qed
qed

lemma scan_break_none:
  "index \<le> length buffer \<Longrightarrow> \<forall>j. index \<le> j \<and> j < length buffer \<longrightarrow> \<not> is_break (buffer ! j) \<Longrightarrow>
   scan_break buffer index = length buffer"
proof (induction buffer index rule: scan_break.induct)
  case (1 buffer index)
  show ?case
  proof (cases "index < length buffer")
    case True
    with 1(3) have nb: "\<not> is_break (buffer ! index)" by simp
    with True have eq: "scan_break buffer index = scan_break buffer (index + 1)"
      by (subst scan_break.simps) simp
    from 1(3) have "\<forall>j. index + 1 \<le> j \<and> j < length buffer \<longrightarrow> \<not> is_break (buffer ! j)"
      by simp
    with 1(1) True nb eq show ?thesis by simp
  next
    case False
    with 1(2) show ?thesis by (subst scan_break.simps) simp
  qed
qed


lemma multi_line_inv_new: "multi_line_inv buf (WordEnumerator_new buf False)"
  by (simp add: multi_line_inv_def WordEnumerator_new_def)

lemma scan_break_last:
  assumes "buf \<noteq> []" and "is_break (last buf)" and "i < length buf"
  shows "scan_break buf i < length buf"
proof -
  from assms(1,2) have "is_break (buf ! (length buf - 1))"
    by (simp add: last_conv_nth)
  moreover from assms(3) have "i \<le> length buf - 1" and "length buf - 1 < length buf"
    by simp_all
  ultimately have "scan_break buf i \<le> length buf - 1"
    by (rule scan_break_stops [rotated 2])
  with assms(3) show ?thesis by simp
qed

lemma Advance_multi_line_inv:
  assumes "multi_line_inv buf e" and "buf \<noteq> []" and "is_break (last buf)"
  shows "multi_line_inv buf (snd (Advance e))"
proof (cases "current_index e + current_length e < length buf")
  case True
  then have "scan_break buf (current_index e + current_length e) < length buf"
    using assms(2,3) by (rule scan_break_last [rotated 2])
  moreover have "current_index e + current_length e
                   \<le> scan_break buf (current_index e + current_length e)"
    by (rule scan_break_ge)
  ultimately show ?thesis
    using assms(1) True by (simp add: multi_line_inv_def Advance_def Let_def)
next
  case False
  with assms(1) show ?thesis
    by (simp add: multi_line_inv_def Advance_def Let_def)
qed

lemma Advance_times_multi_line_inv:
  assumes "buf \<noteq> []" and "is_break (last buf)"
  shows "multi_line_inv buf (Advance_times k (WordEnumerator_new buf False))"
proof (induction k)
  case 0
  show ?case by (simp add: multi_line_inv_new)
next
  case (Suc k)
  then show ?case using assms by (simp add: Advance_multi_line_inv)
qed

lemma Advance_multi_line_span:
  assumes inv: "multi_line_inv buf e" and ne: "buf \<noteq> []" and lb: "is_break (last buf)"
    and adv: "Advance e = (True, e')"
  shows "GetCurrentWordIndex e' < length buf \<and> 1 \<le> GetCurrentWordLength e' \<and>
         GetCurrentWordIndex e' + GetCurrentWordLength e' \<le> length buf \<and>
         is_break (buf ! (GetCurrentWordIndex e' + GetCurrentWordLength e' - 1)) \<and>
         CurrentWordMustBreak e' =
           Inr (buf ! (GetCurrentWordIndex e' + GetCurrentWordLength e' - 1) = LINEBREAK_MUSTBREAK)"
proof -
  let ?c = "current_index e + current_length e"
  let ?i = "scan_break buf ?c"
  from inv have b: "buffer_of e = buf" and m: "\<not> single_line_mode e" and f: "\<not> finished e"
    by (simp_all add: multi_line_inv_def)
  from adv b m f have lt: "?c < length buf"
    by (auto simp: Advance_def Let_def split: if_splits)
  with adv b m f have e': "e' = e\<lparr>current_index := ?c, current_length := ?i - ?c + 1\<rparr>"
    by (simp add: Advance_def Let_def)
  have ge: "?c \<le> ?i" by (rule scan_break_ge)
  from ne lb lt have ilt: "?i < length buf" by (rule scan_break_last)
  then have brk: "is_break (buf ! ?i)" by (rule scan_break_found)
  from ge have sum: "?c + (?i - ?c + 1) = ?i + 1" by simp
  show ?thesis
    using lt ilt brk b sum
    by (simp add: e' GetCurrentWordIndex_def GetCurrentWordLength_def CurrentWordMustBreak_def)
qed

lemma Advance_no_break_left:
  assumes m: "\<not> single_line_mode e" and f: "\<not> finished e"
    and lt: "current_index e + current_length e < length (buffer_of e)"
    and nb: "\<forall>j. current_index e + current_length e \<le> j \<and> j < length (buffer_of e)
               \<longrightarrow> \<not> is_break (buffer_of e ! j)"
  shows "fst (Advance e) \<and>
         GetCurrentWordIndex (snd (Advance e)) + GetCurrentWordLength (snd (Advance e))
           = length (buffer_of e) + 1 \<and>
         CurrentWordMustBreak (snd (Advance e)) = Inl OutOfRange"
proof -
  let ?c = "current_index e + current_length e"
  from lt have "?c \<le> length (buffer_of e)" by simp
  then have "scan_break (buffer_of e) ?c = length (buffer_of e)"
    using nb by (rule scan_break_none)
  then show ?thesis
    using m f lt
    by (simp add: Advance_def Let_def GetCurrentWordIndex_def GetCurrentWordLength_def
        CurrentWordMustBreak_def)
qed

lemma single_line_finished:
  "finished (Advance_times (Suc k) (WordEnumerator_new buf True)) \<and>
   single_line_mode (Advance_times (Suc k) (WordEnumerator_new buf True))"
proof (induction k)
  case 0
  show ?case by (simp add: Advance_def WordEnumerator_new_def)
next
  case (Suc k)
  then show ?case by (simp add: Advance_def Let_def)
qed

text \<open>
  C8. In single-line mode the first Advance yields the span that covers the whole buffer
  (index 0, length the size of the buffer), whatever break classes the buffer holds, and
  every later Advance returns false.
\<close>

theorem single_line_yields_one_span:
  "fst (Advance (WordEnumerator_new buf True)) \<and>
   GetCurrentWordIndex (snd (Advance (WordEnumerator_new buf True))) = 0 \<and>
   GetCurrentWordLength (snd (Advance (WordEnumerator_new buf True))) = length buf \<and>
   (\<forall>k. \<not> fst (Advance (Advance_times (Suc k) (WordEnumerator_new buf True))))"
proof -
  have first: "Advance (WordEnumerator_new buf True) =
      (True, \<lparr>current_index = 0, current_length = length buf, buffer_of = buf,
              finished = True, single_line_mode = True\<rparr>)"
    by (simp add: Advance_def WordEnumerator_new_def)
  have later: "\<not> fst (Advance (Advance_times (Suc k) (WordEnumerator_new buf True)))" for k
  proof -
    have "finished (Advance_times (Suc k) (WordEnumerator_new buf True))"
      using single_line_finished [of k buf] by simp
    then show ?thesis
      by (simp add: Advance_def Let_def del: Advance_times.simps)
  qed
  show ?thesis
    using later by (simp add: first GetCurrentWordIndex_def GetCurrentWordLength_def)
qed

text \<open>
  C9. In multi-line mode, over a buffer whose last byte is a break class, every span that
  Advance yields (after any number of earlier calls) starts inside the buffer, is not
  empty and ends at a break byte of the buffer, so that CurrentWordMustBreak reads inside
  the buffer. From a state whose remaining bytes hold no break class, Advance yields a
  span with index + length = size + 1, and CurrentWordMustBreak then reads one past the
  end of the buffer.
\<close>

theorem multi_line_span_bounds:
  "(buf \<noteq> [] \<and> is_break (last buf) \<and>
    Advance (Advance_times k (WordEnumerator_new buf False)) = (True, e') \<longrightarrow>
      GetCurrentWordIndex e' < length buf \<and> 1 \<le> GetCurrentWordLength e' \<and>
      GetCurrentWordIndex e' + GetCurrentWordLength e' \<le> length buf \<and>
      is_break (buf ! (GetCurrentWordIndex e' + GetCurrentWordLength e' - 1)) \<and>
      CurrentWordMustBreak e' =
        Inr (buf ! (GetCurrentWordIndex e' + GetCurrentWordLength e' - 1) = LINEBREAK_MUSTBREAK))
   \<and>
   (\<not> single_line_mode e \<and> \<not> finished e \<and>
    current_index e + current_length e < length (buffer_of e) \<and>
    (\<forall>j. current_index e + current_length e \<le> j \<and> j < length (buffer_of e)
           \<longrightarrow> \<not> is_break (buffer_of e ! j)) \<longrightarrow>
      fst (Advance e) \<and>
      GetCurrentWordIndex (snd (Advance e)) + GetCurrentWordLength (snd (Advance e))
        = length (buffer_of e) + 1 \<and>
      CurrentWordMustBreak (snd (Advance e)) = Inl OutOfRange)"
proof (intro conjI impI)
  assume a: "buf \<noteq> [] \<and> is_break (last buf) \<and>
    Advance (Advance_times k (WordEnumerator_new buf False)) = (True, e')"
  then have inv: "multi_line_inv buf (Advance_times k (WordEnumerator_new buf False))"
    by (simp add: Advance_times_multi_line_inv)
  from Advance_multi_line_span [OF inv] a
  show "GetCurrentWordIndex e' < length buf"
    and "1 \<le> GetCurrentWordLength e'"
    and "GetCurrentWordIndex e' + GetCurrentWordLength e' \<le> length buf"
    and "is_break (buf ! (GetCurrentWordIndex e' + GetCurrentWordLength e' - 1))"
    and "CurrentWordMustBreak e' =
        Inr (buf ! (GetCurrentWordIndex e' + GetCurrentWordLength e' - 1) = LINEBREAK_MUSTBREAK)"
    by blast+
next
  assume b: "\<not> single_line_mode e \<and> \<not> finished e \<and>
    current_index e + current_length e < length (buffer_of e) \<and>
    (\<forall>j. current_index e + current_length e \<le> j \<and> j < length (buffer_of e)
           \<longrightarrow> \<not> is_break (buffer_of e ! j))"
  then have "fst (Advance e) \<and>
         GetCurrentWordIndex (snd (Advance e)) + GetCurrentWordLength (snd (Advance e))
           = length (buffer_of e) + 1 \<and>
         CurrentWordMustBreak (snd (Advance e)) = Inl OutOfRange"
    by (intro Advance_no_break_left) blast+
  then show "fst (Advance e)"
    and "GetCurrentWordIndex (snd (Advance e)) + GetCurrentWordLength (snd (Advance e))
        = length (buffer_of e) + 1"
    and "CurrentWordMustBreak (snd (Advance e)) = Inl OutOfRange"
    by blast+
qed

text \<open>
  The theorem at a buffer of two words, the second Advance, and at a buffer of two bytes
  with no break class.
\<close>

theorem multi_line_span_bounds_witness:
  "[LINEBREAK_NOBREAK, LINEBREAK_ALLOWBREAK, LINEBREAK_NOBREAK, LINEBREAK_MUSTBREAK] \<noteq> [] \<and>
   is_break (last [LINEBREAK_NOBREAK, LINEBREAK_ALLOWBREAK, LINEBREAK_NOBREAK, LINEBREAK_MUSTBREAK]) \<and>
   Advance (Advance_times 1 (WordEnumerator_new
      [LINEBREAK_NOBREAK, LINEBREAK_ALLOWBREAK, LINEBREAK_NOBREAK, LINEBREAK_MUSTBREAK] False))
     = (True, \<lparr>current_index = 2, current_length = 2,
               buffer_of = [LINEBREAK_NOBREAK, LINEBREAK_ALLOWBREAK, LINEBREAK_NOBREAK, LINEBREAK_MUSTBREAK],
               finished = False, single_line_mode = False\<rparr>) \<and>
   CurrentWordMustBreak \<lparr>current_index = 2, current_length = 2,
               buffer_of = [LINEBREAK_NOBREAK, LINEBREAK_ALLOWBREAK, LINEBREAK_NOBREAK, LINEBREAK_MUSTBREAK],
               finished = False, single_line_mode = False\<rparr> = Inr True \<and>
   fst (Advance (WordEnumerator_new [LINEBREAK_NOBREAK, LINEBREAK_NOBREAK] False)) \<and>
   GetCurrentWordIndex (snd (Advance (WordEnumerator_new [LINEBREAK_NOBREAK, LINEBREAK_NOBREAK] False)))
     + GetCurrentWordLength (snd (Advance (WordEnumerator_new [LINEBREAK_NOBREAK, LINEBREAK_NOBREAK] False)))
     = 3 \<and>
   CurrentWordMustBreak (snd (Advance (WordEnumerator_new [LINEBREAK_NOBREAK, LINEBREAK_NOBREAK] False)))
     = Inl OutOfRange"
  using multi_line_span_bounds
    [of "[LINEBREAK_NOBREAK, LINEBREAK_ALLOWBREAK, LINEBREAK_NOBREAK, LINEBREAK_MUSTBREAK]" 1
        "\<lparr>current_index = 2, current_length = 2,
               buffer_of = [LINEBREAK_NOBREAK, LINEBREAK_ALLOWBREAK, LINEBREAK_NOBREAK, LINEBREAK_MUSTBREAK],
               finished = False, single_line_mode = False\<rparr>"
        "WordEnumerator_new [LINEBREAK_NOBREAK, LINEBREAK_NOBREAK] False"]
  by (simp add: Advance_def WordEnumerator_new_def is_break_def scan_break.simps Let_def
      GetCurrentWordIndex_def GetCurrentWordLength_def CurrentWordMustBreak_def)

section \<open>Properties of FontBuffer::UpdateLine\<close>

lemma take_eq_le:
  assumes "take m xs = take m ys" and "k \<le> m"
  shows "take k xs = take k ys"
proof -
  from assms(2) have "take k xs = take k (take m xs)" and "take k ys = take k (take m ys)"
    by (simp_all add: min_def)
  with assms(1) show ?thesis by simp
qed

lemma shift_vertices_frame:
  "shift_vertices fl off it i vs = Inr vs' \<Longrightarrow>
   length vs' = length vs \<and> take it vs' = take it vs"
proof (induction i arbitrary: it vs)
  case 0
  then show ?case by simp
next
  case (Suc i)
  from Suc.prems have lt: "it < length vs"
    by (simp split: if_splits)
  with Suc.prems have "shift_vertices fl off (it + 1) i (vs[it := move_x fl off (vs ! it)]) = Inr vs'"
    by simp
  from Suc.IH [OF this] have "length vs' = length vs"
    and "take (it + 1) vs' = take (it + 1) (vs[it := move_x fl off (vs ! it)])" by simp_all
  moreover from this(2) have "take it vs' = take it (vs[it := move_x fl off (vs ! it)])"
    by (rule take_eq_le) simp
  ultimately show ?case by simp
qed

lemma update_glyph_positions_frame:
  "update_glyph_positions fl justify c wb n idx bi offset vs = Inr vs' \<Longrightarrow>
   length vs' = length vs \<and>
   take (idx * kVerticesPerCodePoint) vs' = take (idx * kVerticesPerCodePoint) vs"
proof (induction fl justify c wb n idx bi offset vs rule: update_glyph_positions.induct)
  case (1 fl justify c wb n idx bi offset vs)
  show ?case
  proof (cases "idx < n")
    case False
    with "1.prems" show ?thesis by (simp add: update_glyph_positions.simps)
  next
    case True
    let ?cross = "justify \<and> idx \<ge> wb ! bi"
    let ?bi = "if ?cross then bi + 1 else bi"
    let ?off = "if ?cross then offset + c else offset"
    from True "1.prems" have nf: "\<not> (justify \<and> length wb \<le> bi)"
      by (subst (asm) update_glyph_positions.simps) (auto split: if_splits)
    from True nf "1.prems" obtain vs1 where
      sh: "shift_vertices fl ?off (idx * kVerticesPerCodePoint) kVerticesPerCodePoint vs = Inr vs1"
      and rec: "update_glyph_positions fl justify c wb n (idx + 1) ?bi ?off vs1 = Inr vs'"
      by (subst (asm) update_glyph_positions.simps) (auto simp: Let_def split: sum.splits if_splits)
    from shift_vertices_frame [OF sh] have l1: "length vs1 = length vs"
      and t1: "take (idx * kVerticesPerCodePoint) vs1 = take (idx * kVerticesPerCodePoint) vs"
      by simp_all
    from "1.IH" [OF True nf refl refl refl sh rec]
    have l2: "length vs' = length vs1"
      and t2: "take ((idx + 1) * kVerticesPerCodePoint) vs' = take ((idx + 1) * kVerticesPerCodePoint) vs1"
      by simp_all
    from t2 have "take (idx * kVerticesPerCodePoint) vs' = take (idx * kVerticesPerCodePoint) vs1"
      by (rule take_eq_le) simp
    with l1 l2 t1 show ?thesis by simp
  qed
qed


lemma update_caret_positions_frame:
  "update_caret_positions justify c wbc idx bi offset cs = Inr cs' \<Longrightarrow>
   length cs' = length cs \<and> take idx cs' = take idx cs"
proof (induction justify c wbc idx bi offset cs rule: update_caret_positions.induct)
  case (1 justify c wbc idx bi offset cs)
  show ?case
  proof (cases "idx < length cs")
    case False
    with "1.prems" show ?thesis by (simp add: update_caret_positions.simps)
  next
    case True
    let ?cross = "justify \<and> idx \<ge> wbc ! bi"
    let ?bi = "if ?cross then bi + 1 else bi"
    let ?off = "if ?cross then offset + c else offset"
    let ?cs = "cs[idx := (fst (cs ! idx) + ?off, snd (cs ! idx))]"
    from True "1.prems" have nf: "\<not> (justify \<and> length wbc \<le> bi)"
      by (subst (asm) update_caret_positions.simps) (auto split: if_splits)
    from True nf "1.prems" have
      rec: "update_caret_positions justify c wbc (idx + 1) ?bi ?off ?cs = Inr cs'"
      by (subst (asm) update_caret_positions.simps) (auto simp: Let_def split: if_splits)
    from "1.IH" [OF True nf refl refl refl rec]
    have l2: "length cs' = length ?cs" and t2: "take (idx + 1) cs' = take (idx + 1) ?cs"
      by simp_all
    from t2 have "take idx cs' = take idx ?cs"
      by (rule take_eq_le) simp
    with l2 show ?thesis by simp
  qed
qed

lemma UpdateLine_markers:
  assumes "UpdateLine fl parameters direction line_width last_line b = Inr b'"
  shows "line_start_index b' = length (code_points b') \<and>
         line_start_caret_index b' = length (caret_positions b') \<and>
         word_boundary b' = [] \<and> word_boundary_caret b' = []"
  using assms
  by (auto simp: UpdateLine_def Let_def split: sum.splits if_splits prod.splits)

lemma UpdateLine_frame:
  assumes "UpdateLine fl parameters direction line_width last_line b = Inr b'"
  shows "code_points b' = code_points b \<and>
         length (vertices b') = length (vertices b) \<and>
         length (caret_positions b') = length (caret_positions b) \<and>
         take (line_start_index b * kVerticesPerCodePoint) (vertices b')
           = take (line_start_index b * kVerticesPerCodePoint) (vertices b) \<and>
         take (line_start_caret_index b) (caret_positions b')
           = take (line_start_caret_index b) (caret_positions b)"
  using assms
  by (auto simp: UpdateLine_def Let_def split: sum.splits if_splits prod.splits
      dest!: update_glyph_positions_frame update_caret_positions_frame)

lemma length_filter_split:
  assumes "m \<le> length xs" and "\<forall>k<m. P (xs ! k)"
    and "\<forall>k. m \<le> k \<and> k < length xs \<longrightarrow> \<not> P (xs ! k)"
  shows "length (filter P xs) = m"
proof -
  have "filter P (take m xs) = take m xs"
    using assms(1,2) by (auto simp: filter_id_conv in_set_conv_nth)
  moreover have "filter P (drop m xs) = []"
    using assms(3) by (auto simp: filter_empty_conv in_set_conv_nth)
  ultimately have "filter P (take m xs @ drop m xs) = take m xs"
    by (simp del: append_take_drop_id)
  then show ?thesis using assms(1) by simp
qed

lemma shift_vertices_result:
  "it + i \<le> length vs \<Longrightarrow>
   \<exists>vs'. shift_vertices fl off it i vs = Inr vs' \<and> length vs' = length vs \<and>
     (\<forall>j<length vs. vs' ! j = (if it \<le> j \<and> j < it + i then move_x fl off (vs ! j) else vs ! j))"
proof (induction i arbitrary: it vs)
  case 0
  then show ?case by auto
next
  case (Suc i)
  let ?vs = "vs[it := move_x fl off (vs ! it)]"
  from Suc.prems have lt: "it < length vs" and le: "(it + 1) + i \<le> length ?vs" by simp_all
  from Suc.IH [OF le] obtain vs' where
    r: "shift_vertices fl off (it + 1) i ?vs = Inr vs'" and l: "length vs' = length ?vs"
    and n: "\<forall>j<length ?vs. vs' ! j = (if it + 1 \<le> j \<and> j < it + 1 + i then move_x fl off (?vs ! j) else ?vs ! j)"
    by blast
  have "\<forall>j<length vs. vs' ! j = (if it \<le> j \<and> j < it + Suc i then move_x fl off (vs ! j) else vs ! j)"
  proof (intro allI impI)
    fix j assume j: "j < length vs"
    show "vs' ! j = (if it \<le> j \<and> j < it + Suc i then move_x fl off (vs ! j) else vs ! j)"
      using n j lt by (cases "j = it") (auto simp: nth_list_update)
  qed
  with r l lt show ?case by simp
qed


lemma boundary_inv_start:
  "\<forall>w\<in>set wb. start \<le> w \<Longrightarrow> boundary_inv wb 0 start"
  by (simp add: boundary_inv_def)

lemma boundary_inv_less:
  assumes "boundary_inv wb bi idx" and "wb \<noteq> []" and "idx < last wb"
  shows "bi < length wb"
proof (rule ccontr)
  assume "\<not> bi < length wb"
  with assms(1) have "\<forall>k<length wb. wb ! k < idx" by (simp add: boundary_inv_def)
  with assms(2) have "last wb < idx" by (simp add: last_conv_nth)
  with assms(3) show False by simp
qed

lemma boundary_inv_step:
  assumes inv: "boundary_inv wb bi idx" and s: "sorted_wrt (<) wb" and lt: "bi < length wb"
  shows "boundary_inv wb (if wb ! bi \<le> idx then bi + 1 else bi) (idx + 1)"
proof (cases "wb ! bi \<le> idx")
  case True
  from inv lt have "idx \<le> wb ! bi" by (simp add: boundary_inv_def)
  with True have eq: "wb ! bi = idx" by simp
  have "\<forall>k<bi + 1. wb ! k < idx + 1"
  proof (intro allI impI)
    fix k assume "k < bi + 1"
    then have "k < bi \<or> k = bi" by auto
    with inv eq show "wb ! k < idx + 1" by (auto simp: boundary_inv_def)
  qed
  moreover have "\<forall>k. bi + 1 \<le> k \<and> k < length wb \<longrightarrow> idx + 1 \<le> wb ! k"
  proof (intro allI impI)
    fix k assume k: "bi + 1 \<le> k \<and> k < length wb"
    then have "wb ! bi < wb ! k" using s by (simp add: sorted_wrt_iff_nth_less)
    with eq show "idx + 1 \<le> wb ! k" by simp
  qed
  ultimately show ?thesis using True lt by (simp add: boundary_inv_def)
next
  case False
  have "\<forall>k. bi \<le> k \<and> k < length wb \<longrightarrow> idx + 1 \<le> wb ! k"
  proof (intro allI impI)
    fix k assume k: "bi \<le> k \<and> k < length wb"
    then have "k = bi \<or> bi < k" by auto
    then have "wb ! bi \<le> wb ! k"
      using s k by (auto simp: sorted_wrt_iff_nth_less less_imp_le)
    with False show "idx + 1 \<le> wb ! k" by simp
  qed
  moreover from inv have "\<forall>k<bi. wb ! k < idx + 1"
    by (auto simp: boundary_inv_def less_SucI)
  ultimately show ?thesis using False inv by (simp add: boundary_inv_def)
qed

lemma boundary_inv_count:
  assumes "boundary_inv wb bi (idx + 1)"
  shows "boundaries_upto wb idx = bi"
  unfolding boundaries_upto_def
proof (rule length_filter_split)
  from assms show "bi \<le> length wb" by (simp add: boundary_inv_def)
  from assms show "\<forall>k<bi. wb ! k \<le> idx" by (auto simp: boundary_inv_def)
  from assms show "\<forall>k. bi \<le> k \<and> k < length wb \<longrightarrow> \<not> wb ! k \<le> idx"
    by (auto simp: boundary_inv_def)
qed

lemma update_glyph_positions_justified:
  assumes s: "sorted_wrt (<) wb" and ne: "wb \<noteq> []" and last: "n \<le> last wb"
    and len: "n * kVerticesPerCodePoint \<le> length vs"
    and inv: "boundary_inv wb bi idx"
  shows "\<exists>vs'. update_glyph_positions fl True c wb n idx bi offset vs = Inr vs' \<and>
           length vs' = length vs \<and>
           (\<forall>i<length vs. vs' ! i =
              (if idx * kVerticesPerCodePoint \<le> i \<and> i < n * kVerticesPerCodePoint
               then move_x fl (offset - c * int bi
                               + c * int (boundaries_upto wb (i div kVerticesPerCodePoint))) (vs ! i)
               else vs ! i))"
  using len inv
proof (induction "n - idx" arbitrary: idx bi offset vs)
  case 0
  then have ge: "n \<le> idx" by simp
  then have "n * kVerticesPerCodePoint \<le> idx * kVerticesPerCodePoint"
    by (rule mult_le_mono1)
  then have "\<not> (idx * kVerticesPerCodePoint \<le> i \<and> i < n * kVerticesPerCodePoint)" for i
    by linarith
  with ge show ?case by (auto simp: update_glyph_positions.simps)
next
  case (Suc d)
  then have lt: "idx < n" by simp
  with last have "idx < last wb" by simp
  with Suc.prems(2) ne have bl: "bi < length wb" by (rule boundary_inv_less)
  let ?bi = "if wb ! bi \<le> idx then bi + 1 else bi"
  let ?off = "if wb ! bi \<le> idx then offset + c else offset"
  have inv': "boundary_inv wb ?bi (idx + 1)"
    using Suc.prems(2) s bl by (rule boundary_inv_step)
  then have cnt: "boundaries_upto wb idx = ?bi" by (rule boundary_inv_count)
  have offeq: "?off - c * int ?bi = offset - c * int bi"
    by (simp add: algebra_simps)
  from lt Suc.prems(1) have fit: "idx * kVerticesPerCodePoint + kVerticesPerCodePoint \<le> length vs"
  proof -
    from lt have "(idx + 1) * kVerticesPerCodePoint \<le> n * kVerticesPerCodePoint"
      by (intro mult_le_mono1) simp
    with Suc.prems(1) show ?thesis by simp
  qed
  from shift_vertices_result [OF fit, of fl ?off] obtain vs1 where
    sh: "shift_vertices fl ?off (idx * kVerticesPerCodePoint) kVerticesPerCodePoint vs = Inr vs1"
    and l1: "length vs1 = length vs"
    and n1: "\<forall>j<length vs. vs1 ! j =
        (if idx * kVerticesPerCodePoint \<le> j \<and> j < idx * kVerticesPerCodePoint + kVerticesPerCodePoint
         then move_x fl ?off (vs ! j) else vs ! j)"
    by blast
  from Suc.hyps(2) lt have d: "d = n - (idx + 1)" by simp
  from Suc.prems(1) l1 have len1: "n * kVerticesPerCodePoint \<le> length vs1" by simp
  from Suc.hyps(1) [OF d len1 inv', of ?off] obtain vs' where
    rec: "update_glyph_positions fl True c wb n (idx + 1) ?bi ?off vs1 = Inr vs'"
    and l2: "length vs' = length vs1"
    and n2: "\<forall>i<length vs1. vs' ! i =
        (if (idx + 1) * kVerticesPerCodePoint \<le> i \<and> i < n * kVerticesPerCodePoint
         then move_x fl (?off - c * int ?bi
                         + c * int (boundaries_upto wb (i div kVerticesPerCodePoint))) (vs1 ! i)
         else vs1 ! i)"
    by blast
  have whole: "update_glyph_positions fl True c wb n idx bi offset vs = Inr vs'"
    using lt bl sh rec by (subst update_glyph_positions.simps) (simp add: Let_def)
  have "\<forall>i<length vs. vs' ! i =
      (if idx * kVerticesPerCodePoint \<le> i \<and> i < n * kVerticesPerCodePoint
       then move_x fl (offset - c * int bi
                       + c * int (boundaries_upto wb (i div kVerticesPerCodePoint))) (vs ! i)
       else vs ! i)"
  proof (intro allI impI)
    fix i assume i: "i < length vs"
    consider (before) "i < idx * kVerticesPerCodePoint"
      | (here) "idx * kVerticesPerCodePoint \<le> i" "i < (idx + 1) * kVerticesPerCodePoint"
      | (after) "(idx + 1) * kVerticesPerCodePoint \<le> i"
      by linarith
    then show "vs' ! i =
      (if idx * kVerticesPerCodePoint \<le> i \<and> i < n * kVerticesPerCodePoint
       then move_x fl (offset - c * int bi
                       + c * int (boundaries_upto wb (i div kVerticesPerCodePoint))) (vs ! i)
       else vs ! i)"
    proof cases
      case before
      then show ?thesis using n1 n2 i l1 by simp
    next
      case here
      have pos: "0 < kVerticesPerCodePoint" by (simp add: kVerticesPerCodePoint_def)
      from here have dv: "i div kVerticesPerCodePoint = idx"
        using pos by (simp add: div_nat_eqI mult.commute)
      from here lt have "i < n * kVerticesPerCodePoint"
      proof -
        from lt have "(idx + 1) * kVerticesPerCodePoint \<le> n * kVerticesPerCodePoint"
          by (intro mult_le_mono1) simp
        with here(2) show ?thesis by simp
      qed
      moreover have "vs' ! i = move_x fl ?off (vs ! i)"
        using n1 n2 i l1 here by simp
      moreover have "?off = offset - c * int bi + c * int (boundaries_upto wb idx)"
        using offeq cnt by (simp add: algebra_simps)
      ultimately show ?thesis using here(1) dv by simp
    next
      case after
      then have "idx * kVerticesPerCodePoint \<le> i" by simp
      moreover have "\<not> (idx * kVerticesPerCodePoint \<le> i \<and> i < idx * kVerticesPerCodePoint + kVerticesPerCodePoint)"
        using after by simp
      ultimately show ?thesis using n1 n2 i l1 after offeq by simp
    qed
  qed
  with whole l1 l2 show ?case by simp
qed

lemma update_glyph_positions_plain:
  assumes len: "n * kVerticesPerCodePoint \<le> length vs"
  shows "\<exists>vs'. update_glyph_positions fl False c wb n idx bi offset vs = Inr vs' \<and>
           length vs' = length vs \<and>
           (\<forall>i<length vs. vs' ! i =
              (if idx * kVerticesPerCodePoint \<le> i \<and> i < n * kVerticesPerCodePoint
               then move_x fl offset (vs ! i) else vs ! i))"
  using len
proof (induction "n - idx" arbitrary: idx vs)
  case 0
  then have ge: "n \<le> idx" by simp
  then have "n * kVerticesPerCodePoint \<le> idx * kVerticesPerCodePoint"
    by (rule mult_le_mono1)
  then have "\<not> (idx * kVerticesPerCodePoint \<le> i \<and> i < n * kVerticesPerCodePoint)" for i
    by linarith
  with ge show ?case by (auto simp: update_glyph_positions.simps)
next
  case (Suc d)
  then have lt: "idx < n" by simp
  then have up: "(idx + 1) * kVerticesPerCodePoint \<le> n * kVerticesPerCodePoint"
    by (intro mult_le_mono1) simp
  with Suc.prems have fit: "idx * kVerticesPerCodePoint + kVerticesPerCodePoint \<le> length vs"
    by simp
  from shift_vertices_result [OF fit, of fl offset] obtain vs1 where
    sh: "shift_vertices fl offset (idx * kVerticesPerCodePoint) kVerticesPerCodePoint vs = Inr vs1"
    and l1: "length vs1 = length vs"
    and n1: "\<forall>j<length vs. vs1 ! j =
        (if idx * kVerticesPerCodePoint \<le> j \<and> j < idx * kVerticesPerCodePoint + kVerticesPerCodePoint
         then move_x fl offset (vs ! j) else vs ! j)"
    by blast
  from Suc.hyps(2) lt have d: "d = n - (idx + 1)" by simp
  from Suc.prems l1 have len1: "n * kVerticesPerCodePoint \<le> length vs1" by simp
  from Suc.hyps(1) [OF d len1] obtain vs' where
    rec: "update_glyph_positions fl False c wb n (idx + 1) bi offset vs1 = Inr vs'"
    and l2: "length vs' = length vs1"
    and n2: "\<forall>i<length vs1. vs' ! i =
        (if (idx + 1) * kVerticesPerCodePoint \<le> i \<and> i < n * kVerticesPerCodePoint
         then move_x fl offset (vs1 ! i) else vs1 ! i)"
    by blast
  have whole: "update_glyph_positions fl False c wb n idx bi offset vs = Inr vs'"
    using lt sh rec by (subst update_glyph_positions.simps) (simp add: Let_def)
  have "\<forall>i<length vs. vs' ! i =
      (if idx * kVerticesPerCodePoint \<le> i \<and> i < n * kVerticesPerCodePoint
       then move_x fl offset (vs ! i) else vs ! i)"
  proof (intro allI impI)
    fix i assume i: "i < length vs"
    consider (before) "i < idx * kVerticesPerCodePoint"
      | (here) "idx * kVerticesPerCodePoint \<le> i" "i < (idx + 1) * kVerticesPerCodePoint"
      | (after) "(idx + 1) * kVerticesPerCodePoint \<le> i"
      by linarith
    then show "vs' ! i =
      (if idx * kVerticesPerCodePoint \<le> i \<and> i < n * kVerticesPerCodePoint
       then move_x fl offset (vs ! i) else vs ! i)"
    proof cases
      case before
      then show ?thesis using n1 n2 i l1 by simp
    next
      case here
      from here(2) up have "i < n * kVerticesPerCodePoint" by simp
      moreover have "vs' ! i = move_x fl offset (vs ! i)"
        using n1 n2 i l1 here by simp
      ultimately show ?thesis using here(1) by simp
    next
      case after
      then have "idx * kVerticesPerCodePoint \<le> i" by simp
      moreover have "\<not> (idx * kVerticesPerCodePoint \<le> i \<and> i < idx * kVerticesPerCodePoint + kVerticesPerCodePoint)"
        using after by simp
      ultimately show ?thesis using n1 n2 i l1 after by simp
    qed
  qed
  with whole l1 l2 show ?case by simp
qed

lemma update_caret_positions_justified:
  assumes s: "sorted_wrt (<) wbc" and ne: "wbc \<noteq> []" and last: "length cs \<le> last wbc"
    and inv: "boundary_inv wbc bi idx"
  shows "\<exists>cs'. update_caret_positions True c wbc idx bi offset cs = Inr cs' \<and>
           length cs' = length cs \<and>
           (\<forall>i<length cs. cs' ! i =
              (if idx \<le> i
               then (fst (cs ! i) + (offset - c * int bi + c * int (boundaries_upto wbc i)),
                     snd (cs ! i))
               else cs ! i))"
  using last inv
proof (induction "length cs - idx" arbitrary: idx bi offset cs)
  case 0
  then show ?case by (auto simp: update_caret_positions.simps)
next
  case (Suc d)
  then have lt: "idx < length cs" by simp
  with Suc.prems(1) have "idx < last wbc" by simp
  with Suc.prems(2) ne have bl: "bi < length wbc" by (rule boundary_inv_less)
  let ?bi = "if wbc ! bi \<le> idx then bi + 1 else bi"
  let ?off = "if wbc ! bi \<le> idx then offset + c else offset"
  let ?cs = "cs[idx := (fst (cs ! idx) + ?off, snd (cs ! idx))]"
  have inv': "boundary_inv wbc ?bi (idx + 1)"
    using Suc.prems(2) s bl by (rule boundary_inv_step)
  then have cnt: "boundaries_upto wbc idx = ?bi" by (rule boundary_inv_count)
  have offeq: "?off - c * int ?bi = offset - c * int bi"
    by (simp add: algebra_simps)
  from Suc.hyps(2) lt have d: "d = length ?cs - (idx + 1)" by simp
  from Suc.prems(1) have last1: "length ?cs \<le> last wbc" by simp
  from Suc.hyps(1) [OF d last1 inv', of ?off] obtain cs' where
    rec: "update_caret_positions True c wbc (idx + 1) ?bi ?off ?cs = Inr cs'"
    and l2: "length cs' = length ?cs"
    and n2: "\<forall>i<length ?cs. cs' ! i =
        (if idx + 1 \<le> i
         then (fst (?cs ! i) + (?off - c * int ?bi + c * int (boundaries_upto wbc i)), snd (?cs ! i))
         else ?cs ! i)"
    by blast
  have whole: "update_caret_positions True c wbc idx bi offset cs = Inr cs'"
    using lt bl rec by (subst update_caret_positions.simps) (simp add: Let_def)
  have "\<forall>i<length cs. cs' ! i =
      (if idx \<le> i
       then (fst (cs ! i) + (offset - c * int bi + c * int (boundaries_upto wbc i)), snd (cs ! i))
       else cs ! i)"
  proof (intro allI impI)
    fix i assume i: "i < length cs"
    consider (before) "i < idx" | (here) "i = idx" | (after) "idx + 1 \<le> i"
      by linarith
    then show "cs' ! i =
      (if idx \<le> i
       then (fst (cs ! i) + (offset - c * int bi + c * int (boundaries_upto wbc i)), snd (cs ! i))
       else cs ! i)"
    proof cases
      case before
      then show ?thesis using n2 i by simp
    next
      case here
      have "?off = offset - c * int bi + c * int (boundaries_upto wbc idx)"
        using offeq cnt by (simp add: algebra_simps)
      moreover have "cs' ! i = (fst (cs ! idx) + ?off, snd (cs ! idx))"
        using n2 i here by simp
      ultimately show ?thesis using here by simp
    next
      case after
      then have "i \<noteq> idx" and "idx \<le> i" by simp_all
      then show ?thesis using n2 i after offeq by simp
    qed
  qed
  with whole l2 show ?case by simp
qed

lemma update_caret_positions_plain:
  "\<exists>cs'. update_caret_positions False c wbc idx bi offset cs = Inr cs' \<and>
           length cs' = length cs \<and>
           (\<forall>i<length cs. cs' ! i =
              (if idx \<le> i then (fst (cs ! i) + offset, snd (cs ! i)) else cs ! i))"
proof (induction "length cs - idx" arbitrary: idx cs)
  case 0
  then show ?case by (auto simp: update_caret_positions.simps)
next
  case (Suc d)
  then have lt: "idx < length cs" by simp
  let ?cs = "cs[idx := (fst (cs ! idx) + offset, snd (cs ! idx))]"
  from Suc.hyps(2) lt have d: "d = length ?cs - (idx + 1)" by simp
  from Suc.hyps(1) [OF d] obtain cs' where
    rec: "update_caret_positions False c wbc (idx + 1) bi offset ?cs = Inr cs'"
    and l2: "length cs' = length ?cs"
    and n2: "\<forall>i<length ?cs. cs' ! i =
        (if idx + 1 \<le> i then (fst (?cs ! i) + offset, snd (?cs ! i)) else ?cs ! i)"
    by blast
  have whole: "update_caret_positions False c wbc idx bi offset cs = Inr cs'"
    using lt rec by (subst update_caret_positions.simps) (simp add: Let_def)
  have "\<forall>i<length cs. cs' ! i =
      (if idx \<le> i then (fst (cs ! i) + offset, snd (cs ! i)) else cs ! i)"
  proof (intro allI impI)
    fix i assume i: "i < length cs"
    consider (before) "i < idx" | (here) "i = idx" | (after) "idx + 1 \<le> i"
      by linarith
    then show "cs' ! i =
      (if idx \<le> i then (fst (cs ! i) + offset, snd (cs ! i)) else cs ! i)"
    proof cases
      case before
      then show ?thesis using n2 i by simp
    next
      case here
      then show ?thesis using n2 i by simp
    next
      case after
      then have "i \<noteq> idx" and "idx \<le> i" by simp_all
      then show ?thesis using n2 i after by simp
    qed
  qed
  with whole l2 show ?case by simp
qed

lemma to_int32_quotient:
  assumes "0 \<le> s" and "s < 2 ^ 31" and "1 \<le> d"
  shows "to_int32 (to_size_t s div d) = s div d"
proof -
  from assms(1,2) have "to_size_t s = s" by (simp add: to_size_t_def)
  moreover have "0 \<le> s div d" using assms(1,3) by (simp add: pos_imp_zdiv_nonneg_iff)
  moreover have "s div d \<le> s"
  proof -
    have "s div d \<le> s div 1" using assms(1,3) by (intro zdiv_mono2) simp_all
    then show ?thesis by simp
  qed
  ultimately show ?thesis using assms(2) by (simp add: to_int32_def)
qed

lemma quotient_total:
  assumes "0 \<le> (s::int)" and "1 \<le> d"
  shows "d * (s div d) \<le> s \<and> s - d < d * (s div d)"
proof -
  have "s = d * (s div d) + s mod d" by simp
  moreover have "0 \<le> s mod d" and "s mod d < d" using assms(2) by simp_all
  ultimately show ?thesis by linarith
qed

lemma line_offsets_justified:
  assumes "1 < nb" and "0 \<le> slack p lw" and "slack p lw < 2 ^ 31"
  shows "line_offsets p d lw True nb = (True, 0, dir_sign d * (slack p lw div (int nb - 1)))"
proof -
  from assms(1) have "1 \<le> int nb - 1" by simp
  with assms(2,3) have "to_int32 (to_size_t (slack p lw) div (int nb - 1)) = slack p lw div (int nb - 1)"
    by (rule to_int32_quotient)
  then show ?thesis using assms(1)
    by (simp add: line_offsets_def dir_sign_def slack_def)
qed

lemma line_offsets_plain:
  assumes "\<not> (justify \<and> 1 < nb)"
  shows "line_offsets p d lw justify nb =
     (False,
      dir_sign d * (if align_part (get_text_alignment p) = kTextAlignmentCenter
                    then c_div (slack p lw) 2 else slack p lw),
      0)"
  using assms by (auto simp: line_offsets_def dir_sign_def slack_def Let_def)

lemma UpdateLine_justified:
  assumes jp: "justify_part (get_text_alignment p)"
    and nb: "1 < length (word_boundary b)"
    and s0: "0 \<le> slack p lw" and s1: "slack p lw < 2 ^ 31"
    and rg: "boundaries_recorded (word_boundary b) (line_start_index b) (length (code_points b))"
    and vl: "length (code_points b) * kVerticesPerCodePoint \<le> length (vertices b)"
    and rc: "has_caret_positions b \<longrightarrow>
             boundaries_recorded (word_boundary_caret b) (line_start_caret_index b)
               (length (caret_positions b))"
  shows "\<exists>b'. UpdateLine fl p d lw False b = Inr b' \<and>
     length (vertices b') = length (vertices b) \<and>
     length (caret_positions b') = length (caret_positions b) \<and>
     (\<forall>i<length (vertices b). vertices b' ! i =
        (if line_start_index b * kVerticesPerCodePoint \<le> i \<and>
            i < length (code_points b) * kVerticesPerCodePoint
         then move_x fl (dir_sign d * (slack p lw div (int (length (word_boundary b)) - 1))
                * int (boundaries_upto (word_boundary b) (i div kVerticesPerCodePoint)))
                (vertices b ! i)
         else vertices b ! i)) \<and>
     (\<forall>i<length (caret_positions b). caret_positions b' ! i =
        (if has_caret_positions b \<and> line_start_caret_index b \<le> i
         then (fst (caret_positions b ! i)
                 + dir_sign d * (slack p lw div (int (length (word_boundary b)) - 1))
                   * int (boundaries_upto (word_boundary_caret b) i),
               snd (caret_positions b ! i))
         else caret_positions b ! i))"
proof -
  let ?c = "dir_sign d * (slack p lw div (int (length (word_boundary b)) - 1))"
  have lo: "line_offsets p d lw True (length (word_boundary b)) = (True, 0, ?c)"
    using nb s0 s1 by (rule line_offsets_justified)
  from rg have g1: "sorted_wrt (<) (word_boundary b)" and g2: "word_boundary b \<noteq> []"
    and g3: "length (code_points b) \<le> last (word_boundary b)"
    and g4: "boundary_inv (word_boundary b) 0 (line_start_index b)"
    by (simp_all add: boundaries_recorded_def boundary_inv_start)
  from update_glyph_positions_justified [OF g1 g2 g3 vl g4, of fl ?c 0]
  obtain vs where
    v1: "update_glyph_positions fl True ?c (word_boundary b) (length (code_points b))
           (line_start_index b) 0 0 (vertices b) = Inr vs"
    and v2: "length vs = length (vertices b)"
    and v3: "\<forall>i<length (vertices b). vs ! i =
        (if line_start_index b * kVerticesPerCodePoint \<le> i \<and>
            i < length (code_points b) * kVerticesPerCodePoint
         then move_x fl (?c * int (boundaries_upto (word_boundary b) (i div kVerticesPerCodePoint)))
                (vertices b ! i)
         else vertices b ! i)"
    by auto
  show ?thesis
  proof (cases "has_caret_positions b")
    case False
    have "UpdateLine fl p d lw False b =
        Inr (b\<lparr>vertices := vs, line_start_index := length (code_points b),
               line_start_caret_index := length (caret_positions b),
               word_boundary := [], word_boundary_caret := []\<rparr>)"
      using jp lo v1 False by (simp add: UpdateLine_def)
    then show ?thesis using v2 v3 False by simp
  next
    case True
    with rc have c1: "sorted_wrt (<) (word_boundary_caret b)" and c2: "word_boundary_caret b \<noteq> []"
      and c3: "length (caret_positions b) \<le> last (word_boundary_caret b)"
      and c4: "boundary_inv (word_boundary_caret b) 0 (line_start_caret_index b)"
      by (simp_all add: boundaries_recorded_def boundary_inv_start)
    from update_caret_positions_justified [OF c1 c2 c3 c4, of ?c 0]
    obtain cs where
      k1: "update_caret_positions True ?c (word_boundary_caret b) (line_start_caret_index b) 0 0
             (caret_positions b) = Inr cs"
      and k2: "length cs = length (caret_positions b)"
      and k3: "\<forall>i<length (caret_positions b). cs ! i =
          (if line_start_caret_index b \<le> i
           then (fst (caret_positions b ! i) + ?c * int (boundaries_upto (word_boundary_caret b) i),
                 snd (caret_positions b ! i))
           else caret_positions b ! i)"
      by auto
    have "UpdateLine fl p d lw False b =
        Inr (b\<lparr>vertices := vs, caret_positions := cs,
               line_start_index := length (code_points b),
               line_start_caret_index := length cs,
               word_boundary := [], word_boundary_caret := []\<rparr>)"
      using jp lo v1 k1 True by (simp add: UpdateLine_def)
    then show ?thesis using v2 v3 k2 k3 True by simp
  qed
qed

lemma UpdateLine_not_justified:
  assumes nj: "\<not> (justify_part (get_text_alignment p) \<and> \<not> last_line \<and> 1 < length (word_boundary b))"
    and en: "(justify_part (get_text_alignment p) \<and> \<not> last_line)
             \<or> align_part (get_text_alignment p) \<noteq> kTextAlignmentLeft"
    and vl: "length (code_points b) * kVerticesPerCodePoint \<le> length (vertices b)"
  shows "\<exists>b'. UpdateLine fl p d lw last_line b = Inr b' \<and>
     length (vertices b') = length (vertices b) \<and>
     length (caret_positions b') = length (caret_positions b) \<and>
     (\<forall>i<length (vertices b). vertices b' ! i =
        (if line_start_index b * kVerticesPerCodePoint \<le> i \<and>
            i < length (code_points b) * kVerticesPerCodePoint
         then move_x fl (dir_sign d * (if align_part (get_text_alignment p) = kTextAlignmentCenter
                                       then c_div (slack p lw) 2 else slack p lw))
                (vertices b ! i)
         else vertices b ! i)) \<and>
     (\<forall>i<length (caret_positions b). caret_positions b' ! i =
        (if has_caret_positions b \<and> line_start_caret_index b \<le> i
         then (fst (caret_positions b ! i)
                 + dir_sign d * (if align_part (get_text_alignment p) = kTextAlignmentCenter
                                 then c_div (slack p lw) 2 else slack p lw),
               snd (caret_positions b ! i))
         else caret_positions b ! i))"
proof -
  let ?j = "justify_part (get_text_alignment p) \<and> \<not> last_line"
  let ?o = "dir_sign d * (if align_part (get_text_alignment p) = kTextAlignmentCenter
                          then c_div (slack p lw) 2 else slack p lw)"
  from nj have "\<not> (?j \<and> 1 < length (word_boundary b))" by simp
  then have lo: "line_offsets p d lw ?j (length (word_boundary b)) = (False, ?o, 0)"
    by (rule line_offsets_plain)
  from update_glyph_positions_plain [OF vl, of fl 0 "word_boundary b" "line_start_index b" 0 ?o]
  obtain vs where
    v1: "update_glyph_positions fl False 0 (word_boundary b) (length (code_points b))
           (line_start_index b) 0 ?o (vertices b) = Inr vs"
    and v2: "length vs = length (vertices b)"
    and v3: "\<forall>i<length (vertices b). vs ! i =
        (if line_start_index b * kVerticesPerCodePoint \<le> i \<and>
            i < length (code_points b) * kVerticesPerCodePoint
         then move_x fl ?o (vertices b ! i) else vertices b ! i)"
    by auto
  show ?thesis
  proof (cases "has_caret_positions b")
    case False
    have "UpdateLine fl p d lw last_line b =
        Inr (b\<lparr>vertices := vs, line_start_index := length (code_points b),
               line_start_caret_index := length (caret_positions b),
               word_boundary := [], word_boundary_caret := []\<rparr>)"
      using en lo v1 False by (simp add: UpdateLine_def)
    then show ?thesis using v2 v3 False by simp
  next
    case True
    from update_caret_positions_plain
      [of 0 "word_boundary_caret b" "line_start_caret_index b" 0 ?o "caret_positions b"]
    obtain cs where
      k1: "update_caret_positions False 0 (word_boundary_caret b) (line_start_caret_index b) 0 ?o
             (caret_positions b) = Inr cs"
      and k2: "length cs = length (caret_positions b)"
      and k3: "\<forall>i<length (caret_positions b). cs ! i =
          (if line_start_caret_index b \<le> i
           then (fst (caret_positions b ! i) + ?o, snd (caret_positions b ! i))
           else caret_positions b ! i)"
      by auto
    have "UpdateLine fl p d lw last_line b =
        Inr (b\<lparr>vertices := vs, caret_positions := cs,
               line_start_index := length (code_points b),
               line_start_caret_index := length cs,
               word_boundary := [], word_boundary_caret := []\<rparr>)"
      using en lo v1 k1 True by (simp add: UpdateLine_def)
    then show ?thesis using v2 v3 k2 k3 True by simp
  qed
qed

lemma UpdateLine_last_line:
  "UpdateLine fl p d lw True b =
   UpdateLine fl (p\<lparr>get_text_alignment := (get_text_alignment p)\<lparr>justify_part := False\<rparr>\<rparr>) d lw True b"
  by (simp add: UpdateLine_def line_offsets_def)

text \<open>The equations that evaluate UpdateLine at the concrete inputs.\<close>

lemmas eval_line = UpdateLine_def line_offsets_def update_glyph_positions.simps
  update_caret_positions.simps kVerticesPerCodePoint_def move_x_def exact_ops_def
  justify_parameters_def line_of_four_def line_of_one_def FontBuffer_new_def glyph_at_origin_def
  to_int32_def to_size_t_def c_div_def Let_def vertices_x_def eval_nat_numeral

lemma appended_to_refl: "appended_to b b"
  by (simp add: appended_to_def)

lemma take_prefix_trans:
  assumes "take (length xs) ys = xs" and "take (length ys) zs = ys"
  shows "take (length xs) zs = xs"
proof -
  have "length (take (length xs) ys) = length xs" by (simp only: assms(1))
  then have le: "length xs \<le> length ys" by simp
  from assms(2) have "take (length xs) (take (length ys) zs) = take (length xs) ys" by simp
  with le have "take (length xs) zs = take (length xs) ys" by (simp add: min_def)
  with assms(1) show ?thesis by simp
qed

lemma appended_to_trans: "appended_to b1 b2 \<Longrightarrow> appended_to b2 b3 \<Longrightarrow> appended_to b1 b3"
  unfolding appended_to_def by (auto intro: take_prefix_trans)

lemma appended_to_AddCodepoint: "appended_to b (AddCodepoint c b)"
  by (simp add: appended_to_def AddCodepoint_def)

lemma appended_to_AddVertices: "appended_to b (AddVertices fl pos base scale entry b)"
  by (simp add: appended_to_def AddVertices_def Let_def split: prod.splits)

lemma appended_to_AddCaretPosition: "AddCaretPosition fl pos b = Inr b' \<Longrightarrow> appended_to b b'"
  by (auto simp: appended_to_def AddCaretPosition_def AddCaretPosition_xy_def split: if_splits)

lemma appended_to_AddWordBoundary: "appended_to b (AddWordBoundary parameters b)"
  by (simp add: appended_to_def AddWordBoundary_def)

text \<open>
  C10. After every call of UpdateLine that returns, the line-start markers are the sizes
  of the code-point list and of the caret list, and both word-boundary lists are empty.
  Hence, when the buffer then only grows (code points, vertices and carets are appended)
  and UpdateLine is called again, the later call leaves alone the vertices of the code
  points and the carets that were there after the earlier call.
\<close>

theorem UpdateLine_commits_line:
  "UpdateLine fl p d lw ll b0 = Inr b1 \<longrightarrow>
     line_start_index b1 = length (code_points b1) \<and>
     line_start_caret_index b1 = length (caret_positions b1) \<and>
     word_boundary b1 = [] \<and> word_boundary_caret b1 = [] \<and>
     (appended_to b1 b2 \<and> UpdateLine fl p' d' lw' ll' b2 = Inr b3 \<longrightarrow>
        take (min (length (code_points b1) * kVerticesPerCodePoint) (length (vertices b1)))
             (vertices b3)
          = take (min (length (code_points b1) * kVerticesPerCodePoint) (length (vertices b1)))
             (vertices b1) \<and>
        take (length (caret_positions b1)) (caret_positions b3) = caret_positions b1)"
proof (intro impI conjI)
  assume u: "UpdateLine fl p d lw ll b0 = Inr b1"
  from UpdateLine_markers [OF u]
  show m1: "line_start_index b1 = length (code_points b1)"
    and m2: "line_start_caret_index b1 = length (caret_positions b1)"
    and "word_boundary b1 = []" and "word_boundary_caret b1 = []"
    by simp_all
  assume a: "appended_to b1 b2 \<and> UpdateLine fl p' d' lw' ll' b2 = Inr b3"
  then have u2: "UpdateLine fl p' d' lw' ll' b2 = Inr b3" by simp
  from a m1 m2 have s1: "line_start_index b2 = length (code_points b1)"
    and s2: "line_start_caret_index b2 = length (caret_positions b1)"
    and pv: "take (length (vertices b1)) (vertices b2) = vertices b1"
    and pc: "take (length (caret_positions b1)) (caret_positions b2) = caret_positions b1"
    by (simp_all add: appended_to_def)
  let ?m = "min (length (code_points b1) * kVerticesPerCodePoint) (length (vertices b1))"
  from UpdateLine_frame [OF u2] s1 s2
  have fv: "take (length (code_points b1) * kVerticesPerCodePoint) (vertices b3)
            = take (length (code_points b1) * kVerticesPerCodePoint) (vertices b2)"
    and fc: "take (length (caret_positions b1)) (caret_positions b3)
            = take (length (caret_positions b1)) (caret_positions b2)"
    by simp_all
  from fv have "take ?m (vertices b3) = take ?m (vertices b2)"
    by (rule take_eq_le) simp
  also have "\<dots> = take ?m (take (length (vertices b1)) (vertices b2))"
    by (simp add: min_def)
  also have "\<dots> = take ?m (vertices b1)" by (simp only: pv)
  finally show "take ?m (vertices b3) = take ?m (vertices b1)" .
  from fc pc show "take (length (caret_positions b1)) (caret_positions b3) = caret_positions b1"
    by simp
qed

text \<open>
  The theorem at a line of one glyph that is committed, one more glyph appended, and the
  last line committed.
\<close>

theorem UpdateLine_commits_line_witness:
  "UpdateLine exact_ops justify_parameters kTextLayoutDirectionLTR 100 False line_of_one
     = Inr committed_line \<and>
   appended_to committed_line next_line \<and>
   UpdateLine exact_ops justify_parameters kTextLayoutDirectionLTR 90 True next_line
     = Inr (next_line\<lparr>line_start_index := 2, word_boundary := [], word_boundary_caret := []\<rparr>) \<and>
   line_start_index committed_line = length (code_points committed_line) \<and>
   take 4 (vertices (next_line\<lparr>line_start_index := 2, word_boundary := [],
                              word_boundary_caret := []\<rparr>))
     = vertices committed_line"
  using UpdateLine_commits_line [of exact_ops justify_parameters kTextLayoutDirectionLTR 100 False
      line_of_one committed_line next_line justify_parameters kTextLayoutDirectionLTR 90 True
      "next_line\<lparr>line_start_index := 2, word_boundary := [], word_boundary_caret := []\<rparr>"]
  by (simp add: eval_line committed_line_def next_line_def appended_to_def)

text \<open>
  C4, as amended. For a line that is not the last one, with justification requested:
  when it has more than one recorded word boundary (ascending from the start of the line,
  the last one at its end) and a slack s = target width - line width with 0 \<le> s, every
  vertex of every glyph and every caret of the line is moved by s div (b - 1), b the
  number of boundaries, times the number of boundaries at or before it, with the sign
  flipped for right-to-left; the largest offset, (b - 1) * (s div (b - 1)), is at most s
  and more than s - (b - 1). When the line has at most one word boundary, no boundary
  adds an offset: all glyphs and carets of the line are moved by one common offset, which
  is that of right or centre alignment when that is the base alignment. On the last line
  the justify bit is ignored.
\<close>

theorem UpdateLine_justifies_line:
  "(justify_part (get_text_alignment p) \<and> 1 < length (word_boundary b) \<and>
    0 \<le> slack p lw \<and> slack p lw < 2 ^ 31 \<and>
    boundaries_recorded (word_boundary b) (line_start_index b) (length (code_points b)) \<and>
    length (code_points b) * kVerticesPerCodePoint \<le> length (vertices b) \<and>
    (has_caret_positions b \<longrightarrow>
       boundaries_recorded (word_boundary_caret b) (line_start_caret_index b)
         (length (caret_positions b))) \<longrightarrow>
      (\<exists>b'. UpdateLine fl p d lw False b = Inr b' \<and>
         length (vertices b') = length (vertices b) \<and>
         length (caret_positions b') = length (caret_positions b) \<and>
         (\<forall>i<length (vertices b). vertices b' ! i =
            (if line_start_index b * kVerticesPerCodePoint \<le> i \<and>
                i < length (code_points b) * kVerticesPerCodePoint
             then move_x fl (dir_sign d * (slack p lw div (int (length (word_boundary b)) - 1))
                    * int (boundaries_upto (word_boundary b) (i div kVerticesPerCodePoint)))
                    (vertices b ! i)
             else vertices b ! i)) \<and>
         (\<forall>i<length (caret_positions b). caret_positions b' ! i =
            (if has_caret_positions b \<and> line_start_caret_index b \<le> i
             then (fst (caret_positions b ! i)
                     + dir_sign d * (slack p lw div (int (length (word_boundary b)) - 1))
                       * int (boundaries_upto (word_boundary_caret b) i),
                   snd (caret_positions b ! i))
             else caret_positions b ! i))) \<and>
      (int (length (word_boundary b)) - 1) * (slack p lw div (int (length (word_boundary b)) - 1))
         \<le> slack p lw \<and>
      slack p lw - (int (length (word_boundary b)) - 1)
         < (int (length (word_boundary b)) - 1) * (slack p lw div (int (length (word_boundary b)) - 1)))
   \<and>
   (justify_part (get_text_alignment p) \<and> length (word_boundary b) \<le> 1 \<and>
    length (code_points b) * kVerticesPerCodePoint \<le> length (vertices b) \<longrightarrow>
      (\<exists>b' offset. UpdateLine fl p d lw False b = Inr b' \<and>
         (align_part (get_text_alignment p) = kTextAlignmentRight
            \<longrightarrow> offset = dir_sign d * slack p lw) \<and>
         (align_part (get_text_alignment p) = kTextAlignmentCenter
            \<longrightarrow> offset = dir_sign d * c_div (slack p lw) 2) \<and>
         length (vertices b') = length (vertices b) \<and>
         length (caret_positions b') = length (caret_positions b) \<and>
         (\<forall>i<length (vertices b). vertices b' ! i =
            (if line_start_index b * kVerticesPerCodePoint \<le> i \<and>
                i < length (code_points b) * kVerticesPerCodePoint
             then move_x fl offset (vertices b ! i) else vertices b ! i)) \<and>
         (\<forall>i<length (caret_positions b). caret_positions b' ! i =
            (if has_caret_positions b \<and> line_start_caret_index b \<le> i
             then (fst (caret_positions b ! i) + offset, snd (caret_positions b ! i))
             else caret_positions b ! i))))
   \<and>
   UpdateLine fl p d lw True b =
     UpdateLine fl (p\<lparr>get_text_alignment := (get_text_alignment p)\<lparr>justify_part := False\<rparr>\<rparr>)
       d lw True b"
proof (intro conjI impI)
  assume a: "justify_part (get_text_alignment p) \<and> 1 < length (word_boundary b) \<and>
    0 \<le> slack p lw \<and> slack p lw < 2 ^ 31 \<and>
    boundaries_recorded (word_boundary b) (line_start_index b) (length (code_points b)) \<and>
    length (code_points b) * kVerticesPerCodePoint \<le> length (vertices b) \<and>
    (has_caret_positions b \<longrightarrow>
       boundaries_recorded (word_boundary_caret b) (line_start_caret_index b)
         (length (caret_positions b)))"
  then show "\<exists>b'. UpdateLine fl p d lw False b = Inr b' \<and>
         length (vertices b') = length (vertices b) \<and>
         length (caret_positions b') = length (caret_positions b) \<and>
         (\<forall>i<length (vertices b). vertices b' ! i =
            (if line_start_index b * kVerticesPerCodePoint \<le> i \<and>
                i < length (code_points b) * kVerticesPerCodePoint
             then move_x fl (dir_sign d * (slack p lw div (int (length (word_boundary b)) - 1))
                    * int (boundaries_upto (word_boundary b) (i div kVerticesPerCodePoint)))
                    (vertices b ! i)
             else vertices b ! i)) \<and>
         (\<forall>i<length (caret_positions b). caret_positions b' ! i =
            (if has_caret_positions b \<and> line_start_caret_index b \<le> i
             then (fst (caret_positions b ! i)
                     + dir_sign d * (slack p lw div (int (length (word_boundary b)) - 1))
                       * int (boundaries_upto (word_boundary_caret b) i),
                   snd (caret_positions b ! i))
             else caret_positions b ! i))"
    by (intro UpdateLine_justified) blast+
  from a have "0 \<le> slack p lw" and "1 \<le> int (length (word_boundary b)) - 1" by simp_all
  from quotient_total [OF this]
  show "(int (length (word_boundary b)) - 1) * (slack p lw div (int (length (word_boundary b)) - 1))
         \<le> slack p lw"
    and "slack p lw - (int (length (word_boundary b)) - 1)
         < (int (length (word_boundary b)) - 1) * (slack p lw div (int (length (word_boundary b)) - 1))"
    by simp_all
next
  assume a: "justify_part (get_text_alignment p) \<and> length (word_boundary b) \<le> 1 \<and>
    length (code_points b) * kVerticesPerCodePoint \<le> length (vertices b)"
  let ?o = "dir_sign d * (if align_part (get_text_alignment p) = kTextAlignmentCenter
                          then c_div (slack p lw) 2 else slack p lw)"
  from a have nj: "\<not> (justify_part (get_text_alignment p) \<and> \<not> False \<and> 1 < length (word_boundary b))"
    and en: "(justify_part (get_text_alignment p) \<and> \<not> False)
             \<or> align_part (get_text_alignment p) \<noteq> kTextAlignmentLeft"
    and vl: "length (code_points b) * kVerticesPerCodePoint \<le> length (vertices b)"
    by simp_all
  from UpdateLine_not_justified [OF nj en vl, of fl d lw] obtain b' where
    "UpdateLine fl p d lw False b = Inr b'"
    "length (vertices b') = length (vertices b)"
    "length (caret_positions b') = length (caret_positions b)"
    "\<forall>i<length (vertices b). vertices b' ! i =
        (if line_start_index b * kVerticesPerCodePoint \<le> i \<and>
            i < length (code_points b) * kVerticesPerCodePoint
         then move_x fl ?o (vertices b ! i) else vertices b ! i)"
    "\<forall>i<length (caret_positions b). caret_positions b' ! i =
        (if has_caret_positions b \<and> line_start_caret_index b \<le> i
         then (fst (caret_positions b ! i) + ?o, snd (caret_positions b ! i))
         else caret_positions b ! i)"
    by blast
  then have "UpdateLine fl p d lw False b = Inr b' \<and>
         (align_part (get_text_alignment p) = kTextAlignmentRight
            \<longrightarrow> ?o = dir_sign d * slack p lw) \<and>
         (align_part (get_text_alignment p) = kTextAlignmentCenter
            \<longrightarrow> ?o = dir_sign d * c_div (slack p lw) 2) \<and>
         length (vertices b') = length (vertices b) \<and>
         length (caret_positions b') = length (caret_positions b) \<and>
         (\<forall>i<length (vertices b). vertices b' ! i =
            (if line_start_index b * kVerticesPerCodePoint \<le> i \<and>
                i < length (code_points b) * kVerticesPerCodePoint
             then move_x fl ?o (vertices b ! i) else vertices b ! i)) \<and>
         (\<forall>i<length (caret_positions b). caret_positions b' ! i =
            (if has_caret_positions b \<and> line_start_caret_index b \<le> i
             then (fst (caret_positions b ! i) + ?o, snd (caret_positions b ! i))
             else caret_positions b ! i))"
    by simp
  then show "\<exists>b' offset. UpdateLine fl p d lw False b = Inr b' \<and>
         (align_part (get_text_alignment p) = kTextAlignmentRight
            \<longrightarrow> offset = dir_sign d * slack p lw) \<and>
         (align_part (get_text_alignment p) = kTextAlignmentCenter
            \<longrightarrow> offset = dir_sign d * c_div (slack p lw) 2) \<and>
         length (vertices b') = length (vertices b) \<and>
         length (caret_positions b') = length (caret_positions b) \<and>
         (\<forall>i<length (vertices b). vertices b' ! i =
            (if line_start_index b * kVerticesPerCodePoint \<le> i \<and>
                i < length (code_points b) * kVerticesPerCodePoint
             then move_x fl offset (vertices b ! i) else vertices b ! i)) \<and>
         (\<forall>i<length (caret_positions b). caret_positions b' ! i =
            (if has_caret_positions b \<and> line_start_caret_index b \<le> i
             then (fst (caret_positions b ! i) + offset, snd (caret_positions b ! i))
             else caret_positions b ! i))"
    by blast
next
  show "UpdateLine fl p d lw True b =
     UpdateLine fl (p\<lparr>get_text_alignment := (get_text_alignment p)\<lparr>justify_part := False\<rparr>\<rparr>)
       d lw True b"
    by (rule UpdateLine_last_line)
qed

text \<open>
  The theorem at a line of four one-glyph words with slack 6, right-to-left, and at a
  line of one word, centred.
\<close>

theorem UpdateLine_justifies_line_witness:
  "(justify_part (get_text_alignment justify_parameters) \<and>
    1 < length (word_boundary line_of_four) \<and>
    0 \<le> slack justify_parameters 99 \<and> slack justify_parameters 99 < 2 ^ 31 \<and>
    boundaries_recorded (word_boundary line_of_four) (line_start_index line_of_four)
      (length (code_points line_of_four)) \<and>
    length (code_points line_of_four) * kVerticesPerCodePoint \<le> length (vertices line_of_four) \<and>
    boundaries_recorded (word_boundary_caret line_of_four) (line_start_caret_index line_of_four)
      (length (caret_positions line_of_four))) \<and>
   (\<exists>b'. UpdateLine exact_ops justify_parameters kTextLayoutDirectionRTL 99 False line_of_four
            = Inr b' \<and>
         vertices_x b' = [0, 0, 0, 0, - 2, - 2, - 2, - 2, - 4, - 4, - 4, - 4, - 6, - 6, - 6, - 6] \<and>
         carets_x b' = [0, - 2, - 4, - 6]) \<and>
   length (word_boundary line_of_one) \<le> 1 \<and>
   (\<exists>b'. UpdateLine exact_ops
            (justify_parameters\<lparr>get_text_alignment :=
               \<lparr>align_part = kTextAlignmentCenter, justify_part = True\<rparr>\<rparr>)
            kTextLayoutDirectionLTR 99 False line_of_one = Inr b' \<and>
         vertices_x b' = [3, 3, 3, 3])"
proof -
  let ?pc = "justify_parameters\<lparr>get_text_alignment :=
               \<lparr>align_part = kTextAlignmentCenter, justify_part = True\<rparr>\<rparr>"
  have h1: "justify_part (get_text_alignment justify_parameters) \<and>
    1 < length (word_boundary line_of_four) \<and>
    0 \<le> slack justify_parameters 99 \<and> slack justify_parameters 99 < 2 ^ 31 \<and>
    boundaries_recorded (word_boundary line_of_four) (line_start_index line_of_four)
      (length (code_points line_of_four)) \<and>
    length (code_points line_of_four) * kVerticesPerCodePoint \<le> length (vertices line_of_four) \<and>
    (has_caret_positions line_of_four \<longrightarrow>
    boundaries_recorded (word_boundary_caret line_of_four) (line_start_caret_index line_of_four)
      (length (caret_positions line_of_four)))"
    by (simp add: eval_line slack_def boundaries_recorded_def)
  have h2: "justify_part (get_text_alignment ?pc) \<and> length (word_boundary line_of_one) \<le> 1 \<and>
    length (code_points line_of_one) * kVerticesPerCodePoint \<le> length (vertices line_of_one)"
    by (simp add: eval_line)
  have e1: "map_sum id (\<lambda>b. (vertices_x b, carets_x b))
     (UpdateLine exact_ops justify_parameters kTextLayoutDirectionRTL 99 False line_of_four)
     = Inr ([0, 0, 0, 0, - 2, - 2, - 2, - 2, - 4, - 4, - 4, - 4, - 6, - 6, - 6, - 6],
            [0, - 2, - 4, - 6])"
    by (simp add: eval_line carets_x_def)
  have e2: "map_sum id vertices_x
     (UpdateLine exact_ops ?pc kTextLayoutDirectionLTR 99 False line_of_one) = Inr [3, 3, 3, 3]"
    by (simp add: eval_line)
  note t1 = UpdateLine_justifies_line [of justify_parameters line_of_four 99 exact_ops
      kTextLayoutDirectionRTL]
  note t2 = UpdateLine_justifies_line [of ?pc line_of_one 99 exact_ops kTextLayoutDirectionLTR]
  from t1 [THEN conjunct1, THEN mp, OF h1, THEN conjunct1] obtain b1 where
    u1: "UpdateLine exact_ops justify_parameters kTextLayoutDirectionRTL 99 False line_of_four = Inr b1"
    by (elim exE conjE)
  from t2 [THEN conjunct2, THEN conjunct1, THEN mp, OF h2] obtain b2 where
    u2: "UpdateLine exact_ops ?pc kTextLayoutDirectionLTR 99 False line_of_one = Inr b2"
    by (elim exE conjE)
  from e1 u1 have r1: "vertices_x b1 = [0, 0, 0, 0, - 2, - 2, - 2, - 2, - 4, - 4, - 4, - 4, - 6, - 6, - 6, - 6]
      \<and> carets_x b1 = [0, - 2, - 4, - 6]"
    by simp
  from e2 u2 have r2: "vertices_x b2 = [3, 3, 3, 3]" by simp
  from h1 have h1': "boundaries_recorded (word_boundary_caret line_of_four)
      (line_start_caret_index line_of_four) (length (caret_positions line_of_four))"
    by (simp add: line_of_four_def FontBuffer_new_def)
  from h1 h1' h2 u1 r1 u2 r2 show ?thesis by blast
qed

text \<open>
  C4 as the spec states it fails: with slack 5 and four boundaries the three offsets
  added at the boundaries are 1 each, 3 in all and not 5 within one unit; and a line of
  one boundary, with left as its base alignment, is moved by the whole slack instead of
  staying left-aligned.
\<close>

theorem justification_counterexample:
  "slack justify_parameters 100 = 5 \<and>
   word_boundary line_of_four = [1, 2, 3, 4] \<and>
   map_sum id vertices_x
     (UpdateLine exact_ops justify_parameters kTextLayoutDirectionLTR 100 False line_of_four)
     = Inr [0, 0, 0, 0, 1, 1, 1, 1, 2, 2, 2, 2, 3, 3, 3, 3] \<and>
   align_part (get_text_alignment justify_parameters) = kTextAlignmentLeft \<and>
   word_boundary line_of_one = [1] \<and>
   map_sum id vertices_x
     (UpdateLine exact_ops justify_parameters kTextLayoutDirectionLTR 100 False line_of_one)
     = Inr [5, 5, 5, 5]"
  by (simp add: eval_line slack_def)

section \<open>Properties of FontManager\<close>

lemma upload_slices_frame:
  "upload_slices n i s = Inr s' \<Longrightarrow>
   flushes s' = flushes s \<and> subpass_warnings s' = subpass_warnings s \<and>
   current_pass s' = current_pass s \<and> glyph_cache s' = glyph_cache s \<and>
   buffers s' = buffers s \<and> map_buffers s' = map_buffers s"
proof (induction n i s rule: upload_slices.induct)
  case (1 n i s)
  show ?case
  proof (cases "i < n")
    case False
    with "1.prems" show ?thesis by (simp add: upload_slices.simps)
  next
    case True
    from True "1.prems" have a: "i < length (atlas_textures s)" and b: "atlas_textures s ! i"
      by (subst (asm) upload_slices.simps, auto split: if_splits)+
    with True "1.prems" have
      rec: "upload_slices n (i + 1) (add_log (Call_UpdateTexture i) s) = Inr s'"
      by (subst (asm) upload_slices.simps) simp
    from "1.IH" [OF True _ _ rec] a b show ?thesis
      by (simp add: flushes_def subpass_warnings_def add_log_def)
  qed
qed

lemma UpdatePass_start_subpass:
  assumes "UpdatePass env True s = Inr s'"
  shows "flushes s' = flushes s + 1 \<and> current_pass s' = current_pass s + 1 \<and>
         subpass_warnings s' = subpass_warnings s + (if current_pass s > 0 then 1 else 0)"
  using assms
  by (auto simp: UpdatePass_def Let_def add_log_def flushes_def subpass_warnings_def
      split: sum.splits if_splits prod.splits dest!: upload_slices_frame)

text \<open>The equations that evaluate the manager at the concrete inputs.\<close>

lemmas eval_manager = tiny_manager_def tiny_env_def tiny_font_ops_def tiny_cache_ops_def
  exact_ops_def add_log_def Let_def




text \<open>
  C7. ReleaseBuffer on a live buffer: with a reference count below 1 the assertion
  fails; with a count above 1 the count goes down by one and nothing else changes; with
  count 1 (and the buffer's iterator at the map entry that owns it) the references to
  the cache rows are released, the map entry is erased and the buffer is destroyed.
  Whenever the call returns and the buffer is still there, its count is one less than
  before and not negative.
\<close>

theorem ReleaseBuffer_ref_count:
  "buffers s a = Some b \<longrightarrow>
   (ref_count b < 1 \<longrightarrow> ReleaseBuffer env a s = Inl AssertionFailure) \<and>
   (1 < ref_count b \<longrightarrow>
      ReleaseBuffer env a s
        = Inr (s\<lparr>buffers := (buffers s)(a \<mapsto> b\<lparr>ref_count := ref_count b - 1\<rparr>)\<rparr>)) \<and>
   (ref_count b = 1 \<and> iterator b = Some key \<and> map_buffers s key = Some a \<longrightarrow>
      ReleaseBuffer env a s
        = Inr (s\<lparr>glyph_cache := fold (\<lambda>row c. row_Release (env_co env) c row a)
                                   (referencing_rows b) (glyph_cache s),
                 map_buffers := (map_buffers s)(key := None),
                 buffers := (buffers s)(a := None)\<rparr>)) \<and>
   (\<forall>s' b'. ReleaseBuffer env a s = Inr s' \<and> buffers s' a = Some b' \<longrightarrow>
      ref_count b' = ref_count b - 1 \<and> 0 \<le> ref_count b')"
proof (intro impI conjI allI)
  assume b: "buffers s a = Some b"
  { assume "ref_count b < 1"
    with b show "ReleaseBuffer env a s = Inl AssertionFailure"
      by (simp add: ReleaseBuffer_def) }
  { assume "1 < ref_count b"
    with b show "ReleaseBuffer env a s
        = Inr (s\<lparr>buffers := (buffers s)(a \<mapsto> b\<lparr>ref_count := ref_count b - 1\<rparr>)\<rparr>)"
      by (simp add: ReleaseBuffer_def Let_def) }
  { assume "ref_count b = 1 \<and> iterator b = Some key \<and> map_buffers s key = Some a"
    with b show "ReleaseBuffer env a s
        = Inr (s\<lparr>glyph_cache := fold (\<lambda>row c. row_Release (env_co env) c row a)
                                   (referencing_rows b) (glyph_cache s),
                 map_buffers := (map_buffers s)(key := None),
                 buffers := (buffers s)(a := None)\<rparr>)"
      by (simp add: ReleaseBuffer_def Let_def ReleaseCacheRowReference_def) }
  { fix s' b'
    assume r: "ReleaseBuffer env a s = Inr s' \<and> buffers s' a = Some b'"
    with b have ge: "1 \<le> ref_count b"
      by (auto simp: ReleaseBuffer_def split: if_splits)
    from r b ge have "ref_count b' = ref_count b - 1"
      by (auto simp: ReleaseBuffer_def Let_def ReleaseCacheRowReference_def
          split: if_splits option.splits)
    with ge show "ref_count b' = ref_count b - 1" and "0 \<le> ref_count b'" by simp_all }
qed

text \<open>The theorem at a manager that owns one buffer, with reference counts 1, 0
  and 2.\<close>

theorem ReleaseBuffer_ref_count_witness:
  "buffers (manager_with_buffer 1) 0
     = Some (line_of_one\<lparr>ref_count := 1, referencing_rows := [0],
                         iterator := Some shared_text_parameters\<rparr>) \<and>
   map_buffers (manager_with_buffer 1) shared_text_parameters = Some 0 \<and>
   ReleaseBuffer tiny_env 0 (manager_with_buffer 1)
     = Inr ((manager_with_buffer 1)\<lparr>map_buffers := Map.empty, buffers := Map.empty\<rparr>) \<and>
   ReleaseBuffer tiny_env 0 (manager_with_buffer 0) = Inl AssertionFailure \<and>
   map_sum id (\<lambda>s. map_option ref_count (buffers s 0))
     (ReleaseBuffer tiny_env 0 (manager_with_buffer 2)) = Inr (Some 1)"
proof -
  let ?b = "\<lambda>n. line_of_one\<lparr>ref_count := n, referencing_rows := [0],
                         iterator := Some shared_text_parameters\<rparr>"
  have b: "buffers (manager_with_buffer n) 0 = Some (?b n)" for n
    by (simp add: manager_with_buffer_def tiny_manager_def)
  have m: "map_buffers (manager_with_buffer 1) shared_text_parameters = Some 0"
    by (simp add: manager_with_buffer_def tiny_manager_def)
  note t = ReleaseBuffer_ref_count [of _ 0 _ tiny_env shared_text_parameters, THEN mp, OF b]
  have h1: "ref_count (?b 1) = 1 \<and> iterator (?b 1) = Some shared_text_parameters \<and>
            map_buffers (manager_with_buffer 1) shared_text_parameters = Some 0"
    using m by simp
  have h0: "ref_count (?b 0) < 1" and h2: "1 < ref_count (?b 2)" by simp_all
  from t [of 1, THEN conjunct2, THEN conjunct2, THEN conjunct1, THEN mp, OF h1]
  have r1: "ReleaseBuffer tiny_env 0 (manager_with_buffer 1)
     = Inr ((manager_with_buffer 1)\<lparr>map_buffers := Map.empty, buffers := Map.empty\<rparr>)"
    by (simp add: manager_with_buffer_def eval_manager)
  from t [of 0, THEN conjunct1, THEN mp, OF h0]
  have r0: "ReleaseBuffer tiny_env 0 (manager_with_buffer 0) = Inl AssertionFailure" .
  from t [of 2, THEN conjunct2, THEN conjunct1, THEN mp, OF h2]
  have r2: "map_sum id (\<lambda>s. map_option ref_count (buffers s 0))
     (ReleaseBuffer tiny_env 0 (manager_with_buffer 2)) = Inr (Some 1)"
    by simp
  from b [of 1] m r1 r0 r2 show ?thesis by blast
qed

lemma unchanged_outside_cache_refl [simp]: "unchanged_outside_cache s s"
  by (simp add: unchanged_outside_cache_def)

lemma unchanged_outside_cache_trans:
  "unchanged_outside_cache s s1 \<Longrightarrow> unchanged_outside_cache s1 s2 \<Longrightarrow> unchanged_outside_cache s s2"
  by (simp add: unchanged_outside_cache_def)

lemma ExpandAtlasTexture_unchanged: "unchanged_outside_cache s (ExpandAtlasTexture env s)"
  by (simp add: unchanged_outside_cache_def ExpandAtlasTexture_def Let_def flushes_def)

lemma ExpandAtlasTexture_log [simp]: "event_log (ExpandAtlasTexture env s) = event_log s"
  by (simp add: ExpandAtlasTexture_def Let_def)

lemma GetCachedEntry_unchanged:
  assumes "GetCachedEntry env code_point ysize flags s = Inr (r, s')"
  shows "unchanged_outside_cache s s'"
  using assms
  by (auto simp: GetCachedEntry_def Let_def unchanged_outside_cache_def ExpandAtlasTexture_def
      add_log_def flushes_def split: option.splits prod.splits if_splits bool.splits)

lemma GetCachedEntry_failures:
  assumes "GetCachedEntry env code_point ysize flags s = Inr (r, s')"
  shows "fetch_failures s' = fetch_failures s + (if r = None then 1 else 0)"
  using assms
  by (auto simp: GetCachedEntry_def Let_def fetch_failures_def add_log_def
      split: option.splits prod.splits if_splits bool.splits)

lemma GetCachedEntry_buffers_update:
  "GetCachedEntry env code_point ysize flags (s\<lparr>buffers := X\<rparr>)
     = map_sum id (\<lambda>(r, s'). (r, s'\<lparr>buffers := X\<rparr>)) (GetCachedEntry env code_point ysize flags s)"
  by (auto simp: GetCachedEntry_def Let_def ExpandAtlasTexture_def add_log_def
      split: option.splits prod.splits if_splits bool.splits)

lemma same_geometry_refl [simp]: "same_geometry b b"
  by (simp add: same_geometry_def)

lemma same_geometry_trans:
  assumes "same_geometry b b1" and "same_geometry b1 b2"
  shows "same_geometry b b2"
proof -
  from assms(2) have "b2\<lparr>vertices := vertices b1, revision := revision b1\<rparr> = b1"
    by (simp add: same_geometry_def)
  then have "(b2\<lparr>vertices := vertices b1, revision := revision b1\<rparr>)
               \<lparr>vertices := vertices b, revision := revision b\<rparr>
             = b1\<lparr>vertices := vertices b, revision := revision b\<rparr>"
    by (rule arg_cong)
  moreover from assms(1) have "b1\<lparr>vertices := vertices b, revision := revision b\<rparr> = b"
    by (simp add: same_geometry_def)
  ultimately have "b2\<lparr>vertices := vertices b, revision := revision b\<rparr> = b" by simp
  moreover from assms have "map position (vertices b2) = map position (vertices b)"
    by (simp add: same_geometry_def)
  ultimately show ?thesis by (simp add: same_geometry_def)
qed

lemma same_geometry_fields:
  assumes "same_geometry b b'"
  shows "caret_positions b' = caret_positions b" and "code_points b' = code_points b"
    and "ref_count b' = ref_count b" and "length (vertices b') = length (vertices b)"
    and "indices b' = indices b" and "buffer_size b' = buffer_size b"
    and "pass b' = pass b" and "iterator b' = iterator b"
    and "referencing_rows b' = referencing_rows b"
proof -
  from assms have e: "b'\<lparr>vertices := vertices b, revision := revision b\<rparr> = b"
    and m: "map position (vertices b') = map position (vertices b)"
    by (simp_all add: same_geometry_def)
  from e have "caret_positions (b'\<lparr>vertices := vertices b, revision := revision b\<rparr>) = caret_positions b"
    by (rule arg_cong)
  then show "caret_positions b' = caret_positions b" by simp
  from e have "code_points (b'\<lparr>vertices := vertices b, revision := revision b\<rparr>) = code_points b"
    by (rule arg_cong)
  then show "code_points b' = code_points b" by simp
  from e have "ref_count (b'\<lparr>vertices := vertices b, revision := revision b\<rparr>) = ref_count b"
    by (rule arg_cong)
  then show "ref_count b' = ref_count b" by simp
  from m have "length (map position (vertices b')) = length (map position (vertices b))"
    by (rule arg_cong)
  then show "length (vertices b') = length (vertices b)" by simp
  from e have "indices (b'\<lparr>vertices := vertices b, revision := revision b\<rparr>) = indices b"
    by (rule arg_cong)
  then show "indices b' = indices b" by simp
  from e have "buffer_size (b'\<lparr>vertices := vertices b, revision := revision b\<rparr>) = buffer_size b"
    by (rule arg_cong)
  then show "buffer_size b' = buffer_size b" by simp
  from e have "pass (b'\<lparr>vertices := vertices b, revision := revision b\<rparr>) = pass b"
    by (rule arg_cong)
  then show "pass b' = pass b" by simp
  from e have "iterator (b'\<lparr>vertices := vertices b, revision := revision b\<rparr>) = iterator b"
    by (rule arg_cong)
  then show "iterator b' = iterator b" by simp
  from e have "referencing_rows (b'\<lparr>vertices := vertices b, revision := revision b\<rparr>) = referencing_rows b"
    by (rule arg_cong)
  then show "referencing_rows b' = referencing_rows b" by simp
qed

lemma FontBuffer_UpdateUV_geometry:
  assumes "FontBuffer_UpdateUV index c b = Inr b'"
  shows "same_geometry b b' \<and> index * 4 + 3 < length (vertices b) \<and>
         (\<forall>k<4. uv (vertices b' ! (index * 4 + k)) = uv_corner k c) \<and>
         (\<forall>n<length (vertices b). n < index * 4 \<longrightarrow> vertices b' ! n = vertices b ! n)"
proof -
  obtain ux uy uz uw where c: "c = (ux, uy, uz, uw)" by (cases c) auto
  from assms c have lt: "index * 4 + 3 < length (vertices b)"
    by (auto simp: FontBuffer_UpdateUV_def split: if_splits)
  with assms c have b': "b' = b\<lparr>vertices := (vertices b)
               [index * 4 := set_uv (ux, uy) (vertices b ! (index * 4)),
                index * 4 + 1 := set_uv (ux, uw) (vertices b ! (index * 4 + 1)),
                index * 4 + 2 := set_uv (uz, uy) (vertices b ! (index * 4 + 2)),
                index * 4 + 3 := set_uv (uz, uw) (vertices b ! (index * 4 + 3))]\<rparr>"
    by (simp add: FontBuffer_UpdateUV_def)
  have pos: "map position (vertices b') = map position (vertices b)"
    using lt by (auto simp: b' list_eq_iff_nth_eq nth_list_update set_uv_def)
  have corners: "\<forall>k<4. uv (vertices b' ! (index * 4 + k)) = uv_corner k c"
  proof (intro allI impI)
    fix k :: nat assume "k < 4"
    then consider "k = 0" | "k = 1" | "k = 2" | "k = 3" by linarith
    then show "uv (vertices b' ! (index * 4 + k)) = uv_corner k c"
      using lt by cases (simp_all add: b' c uv_corner_def set_uv_def nth_list_update)
  qed
  have before: "\<forall>n<length (vertices b). n < index * 4 \<longrightarrow> vertices b' ! n = vertices b ! n"
    by (simp add: b')
  from pos lt corners before show ?thesis by (simp add: same_geometry_def b')
qed

lemma resolve_code_points_buffers_update:
  "resolve_code_points env ysize flags cps (s\<lparr>buffers := X\<rparr>)
     = map_sum id (\<lambda>(r, s'). (r, s'\<lparr>buffers := X\<rparr>))
         (resolve_code_points env ysize flags cps s)"
proof (induction cps arbitrary: s)
  case Nil
  show ?case by simp
next
  case (Cons cp rest)
  show ?case
    by (simp add: GetCachedEntry_buffers_update Cons.IH
        split: sum.splits prod.splits option.splits)
qed

lemma UpdateUV_loop_step:
  assumes "UpdateUV_loop env ysize flags a (cp # rest) i s = Inr (r, s')"
  shows "(\<exists>s1. GetCachedEntry env cp ysize flags s = Inr (None, s1) \<and> r = None \<and> s' = s1) \<or>
         (\<exists>cache s1 b b1. GetCachedEntry env cp ysize flags s = Inr (Some cache, s1) \<and>
            buffers s1 a = Some b \<and> FontBuffer_UpdateUV i (entry_uv cache) b = Inr b1 \<and>
            UpdateUV_loop env ysize flags a rest (i + 1)
              (s1\<lparr>buffers := (buffers s1)
                    (a \<mapsto> b1\<lparr>revision := cache_get_revision (env_co env) (glyph_cache s1)\<rparr>)\<rparr>)
              = Inr (r, s'))"
  using assms by (auto split: sum.splits prod.splits option.splits)

lemma UpdateUV_loop_frame:
  assumes "buffers s a = Some b"
    and "UpdateUV_loop env ysize flags a cps i s = Inr (r, s')"
  shows "\<exists>b'. buffers s' a = Some b' \<and> same_geometry b b' \<and>
           (\<forall>x. x \<noteq> a \<longrightarrow> buffers s' x = buffers s x) \<and>
           map_buffers s' = map_buffers s \<and> flushes s' = flushes s \<and>
           current_atlas_revision s' = current_atlas_revision s \<and>
           current_pass s' = current_pass s \<and>
           (\<forall>n. n < i * 4 \<longrightarrow> n < length (vertices b) \<longrightarrow> vertices b' ! n = vertices b ! n) \<and>
           (r \<noteq> None \<longrightarrow> r = Some a)"
  using assms
proof (induction cps arbitrary: i s b)
  case Nil
  then show ?case by auto
next
  case (Cons cp rest)
  from UpdateUV_loop_step [OF Cons.prems(2)] show ?case
  proof (elim disjE exE conjE)
    fix s1 assume g: "GetCachedEntry env cp ysize flags s = Inr (None, s1)"
      and "r = None" and "s' = s1"
    with GetCachedEntry_unchanged [OF g] Cons.prems(1) show ?thesis
      by (auto simp: unchanged_outside_cache_def)
  next
    fix cache s1 b0 b1
    assume g: "GetCachedEntry env cp ysize flags s = Inr (Some cache, s1)"
      and b0: "buffers s1 a = Some b0"
      and u: "FontBuffer_UpdateUV i (entry_uv cache) b0 = Inr b1"
      and rec: "UpdateUV_loop env ysize flags a rest (i + 1)
              (s1\<lparr>buffers := (buffers s1)
                    (a \<mapsto> b1\<lparr>revision := cache_get_revision (env_co env) (glyph_cache s1)\<rparr>)\<rparr>)
              = Inr (r, s')"
    let ?b1 = "b1\<lparr>revision := cache_get_revision (env_co env) (glyph_cache s1)\<rparr>"
    let ?s1 = "s1\<lparr>buffers := (buffers s1)(a \<mapsto> ?b1)\<rparr>"
    from GetCachedEntry_unchanged [OF g] have un: "unchanged_outside_cache s s1" .
    with b0 Cons.prems(1) have bb: "b0 = b" by (simp add: unchanged_outside_cache_def)
    from FontBuffer_UpdateUV_geometry [OF u] bb have g1: "same_geometry b b1"
      and pre1: "\<forall>n<length (vertices b). n < i * 4 \<longrightarrow> vertices b1 ! n = vertices b ! n"
      by simp_all
    from g1 have g1': "same_geometry b ?b1" by (simp add: same_geometry_def)
    have "buffers ?s1 a = Some ?b1" by simp
    from Cons.IH [OF this rec] obtain b' where
      r1: "buffers s' a = Some b'" and r2: "same_geometry ?b1 b'"
      and r3: "\<forall>x. x \<noteq> a \<longrightarrow> buffers s' x = buffers ?s1 x"
      and r4: "map_buffers s' = map_buffers ?s1" and r5: "flushes s' = flushes ?s1"
      and r6: "current_atlas_revision s' = current_atlas_revision ?s1"
      and r7: "current_pass s' = current_pass ?s1"
      and r8: "\<forall>n. n < (i + 1) * 4 \<longrightarrow> n < length (vertices ?b1) \<longrightarrow>
                 vertices b' ! n = vertices ?b1 ! n"
      and r9: "r \<noteq> None \<longrightarrow> r = Some a"
      by blast
    have len: "length (vertices b1) = length (vertices b)"
      using g1 by (rule same_geometry_fields)
    have pre: "\<forall>n. n < i * 4 \<longrightarrow> n < length (vertices b) \<longrightarrow>
                 vertices b' ! n = vertices b ! n"
    proof (intro allI impI)
      fix n assume n: "n < i * 4" and l: "n < length (vertices b)"
      with r8 len have "vertices b' ! n = vertices b1 ! n" by simp
      also from pre1 n l have "\<dots> = vertices b ! n" by simp
      finally show "vertices b' ! n = vertices b ! n" .
    qed
    from same_geometry_trans [OF g1' r2] r1 r3 r4 r5 r6 r7 r9 un pre
    show ?thesis by (auto simp: unchanged_outside_cache_def flushes_def)
  qed
qed

lemma UpdateUV_loop_resolves:
  assumes "UpdateUV_loop env ysize flags a cps i s = Inr (r, s')"
  shows "\<exists>res s2. resolve_code_points env ysize flags cps s = Inr (res, s2) \<and>
           glyph_cache s' = glyph_cache s2 \<and> (r = None \<longleftrightarrow> res = None) \<and>
           (\<forall>es. res = Some es \<longrightarrow> length es = length cps)"
  using assms
proof (induction cps arbitrary: i s)
  case Nil
  then show ?case by auto
next
  case (Cons cp rest)
  from UpdateUV_loop_step [OF Cons.prems] show ?case
  proof (elim disjE exE conjE)
    fix s1 assume "GetCachedEntry env cp ysize flags s = Inr (None, s1)"
      and "r = None" and "s' = s1"
    then show ?thesis by simp
  next
    fix cache s1 b0 b1
    assume g: "GetCachedEntry env cp ysize flags s = Inr (Some cache, s1)"
      and rec: "UpdateUV_loop env ysize flags a rest (i + 1)
              (s1\<lparr>buffers := (buffers s1)
                    (a \<mapsto> b1\<lparr>revision := cache_get_revision (env_co env) (glyph_cache s1)\<rparr>)\<rparr>)
              = Inr (r, s')"
    let ?X = "(buffers s1)(a \<mapsto> b1\<lparr>revision := cache_get_revision (env_co env) (glyph_cache s1)\<rparr>)"
    from Cons.IH [OF rec] obtain res s2 where
      r1: "resolve_code_points env ysize flags rest (s1\<lparr>buffers := ?X\<rparr>) = Inr (res, s2)"
      and r2: "glyph_cache s' = glyph_cache s2" and r3: "r = None \<longleftrightarrow> res = None"
      and r4: "\<forall>es. res = Some es \<longrightarrow> length es = length rest"
      by blast
    from r1 obtain s3 where
      r5: "resolve_code_points env ysize flags rest s1 = Inr (res, s3)"
      and r6: "s2 = s3\<lparr>buffers := ?X\<rparr>"
      by (auto simp: resolve_code_points_buffers_update map_sum_def split: sum.splits)
    show ?thesis
    proof (cases res)
      case None
      with g r5 r2 r3 r6 show ?thesis by simp
    next
      case (Some es)
      with g r5 r2 r3 r4 r6 show ?thesis by simp
    qed
  qed
qed

lemma UpdateUV_loop_writes:
  assumes "buffers s a = Some b"
    and "UpdateUV_loop env ysize flags a cps i s = Inr (Some r, s')"
    and "resolve_code_points env ysize flags cps s = Inr (Some es, s2)"
    and "buffers s' a = Some b'"
  shows "(\<forall>j<length cps. \<forall>k<4. uv (vertices b' ! ((i + j) * 4 + k)) = uv_corner k (entry_uv (es ! j))) \<and>
         (cps \<noteq> [] \<longrightarrow> revision b' = cache_get_revision (env_co env) (glyph_cache s')) \<and>
         (cps = [] \<longrightarrow> s' = s)"
  using assms
proof (induction cps arbitrary: i s b es s2)
  case Nil
  then show ?case by simp
next
  case (Cons cp rest)
  from UpdateUV_loop_step [OF Cons.prems(2)] obtain cache s1 b0 b1 where
    g: "GetCachedEntry env cp ysize flags s = Inr (Some cache, s1)"
    and b0: "buffers s1 a = Some b0"
    and u: "FontBuffer_UpdateUV i (entry_uv cache) b0 = Inr b1"
    and rec: "UpdateUV_loop env ysize flags a rest (i + 1)
              (s1\<lparr>buffers := (buffers s1)
                    (a \<mapsto> b1\<lparr>revision := cache_get_revision (env_co env) (glyph_cache s1)\<rparr>)\<rparr>)
              = Inr (Some r, s')"
    by auto
  let ?b1 = "b1\<lparr>revision := cache_get_revision (env_co env) (glyph_cache s1)\<rparr>"
  let ?X = "(buffers s1)(a \<mapsto> ?b1)"
  let ?s1 = "s1\<lparr>buffers := ?X\<rparr>"
  from Cons.prems(3) g obtain es' where
    es: "es = cache # es'" and res: "resolve_code_points env ysize flags rest s1 = Inr (Some es', s2)"
    by (auto split: sum.splits prod.splits option.splits)
  from res have res': "resolve_code_points env ysize flags rest ?s1 = Inr (Some es', s2\<lparr>buffers := ?X\<rparr>)"
    by (simp add: resolve_code_points_buffers_update)
  have bs: "buffers ?s1 a = Some ?b1" by simp
  from Cons.IH [OF bs rec res' Cons.prems(4)]
  have ih1: "\<forall>j<length rest. \<forall>k<4.
        uv (vertices b' ! ((i + 1 + j) * 4 + k)) = uv_corner k (entry_uv (es' ! j))"
    and ih2: "rest \<noteq> [] \<longrightarrow> revision b' = cache_get_revision (env_co env) (glyph_cache s')"
    and ih3: "rest = [] \<longrightarrow> s' = ?s1"
    by simp_all
  from UpdateUV_loop_frame [OF bs rec] Cons.prems(4)
  have pre: "\<forall>n. n < (i + 1) * 4 \<longrightarrow> n < length (vertices ?b1) \<longrightarrow>
               vertices b' ! n = vertices ?b1 ! n"
    by auto
  from FontBuffer_UpdateUV_geometry [OF u]
  have lt: "i * 4 + 3 < length (vertices b0)"
    and c1: "\<forall>k<4. uv (vertices b1 ! (i * 4 + k)) = uv_corner k (entry_uv cache)"
    and g1: "same_geometry b0 b1"
    by simp_all
  from g1 have len: "length (vertices b1) = length (vertices b0)" by (rule same_geometry_fields)
  have first: "\<forall>k<4. uv (vertices b' ! (i * 4 + k)) = uv_corner k (entry_uv cache)"
  proof (intro allI impI)
    fix k :: nat assume k: "k < 4"
    with lt len have "i * 4 + k < (i + 1) * 4" and "i * 4 + k < length (vertices ?b1)" by simp_all
    with pre have "vertices b' ! (i * 4 + k) = vertices b1 ! (i * 4 + k)" by simp
    with c1 k show "uv (vertices b' ! (i * 4 + k)) = uv_corner k (entry_uv cache)" by simp
  qed
  have uvs: "\<forall>j<length (cp # rest). \<forall>k<4.
      uv (vertices b' ! ((i + j) * 4 + k)) = uv_corner k (entry_uv (es ! j))"
  proof (intro allI impI)
    fix j k :: nat assume j: "j < length (cp # rest)" and k: "k < 4"
    show "uv (vertices b' ! ((i + j) * 4 + k)) = uv_corner k (entry_uv (es ! j))"
    proof (cases j)
      case 0
      with first k es show ?thesis by simp
    next
      case (Suc j')
      with j have "j' < length rest" by simp
      with ih1 k have "uv (vertices b' ! ((i + 1 + j') * 4 + k)) = uv_corner k (entry_uv (es' ! j'))"
        by simp
      with Suc es show ?thesis by simp
    qed
  qed
  have rev: "revision b' = cache_get_revision (env_co env) (glyph_cache s')"
  proof (cases "rest = []")
    case False
    with ih2 show ?thesis by simp
  next
    case True
    with ih3 have "s' = ?s1" by simp
    with Cons.prems(4) show ?thesis by auto
  qed
  from uvs rev show ?case by simp
qed

text \<open>
  C6, as amended. When UpdateUV is called on a stale buffer (its revision is not the
  current atlas revision) and returns, the buffer has kept all its data but the UV
  coordinates of its vertices and its revision: vertex positions, caret positions and
  code points are as before, and no other buffer and no map entry has changed. The
  result is null exactly when fetching the recorded code points from the cache, one
  after the other, fails at one of them. Otherwise the result is the buffer; the four
  vertices of each glyph hold the four corners of the UV rectangle of the entry that was
  fetched for its code point; and the revision of the buffer is the revision of the
  cache if the buffer records a code point, and is left as it was if it records none.
\<close>

theorem UpdateUV_refreshes_uv:
  "buffers s a = Some b \<and> revision b \<noteq> current_atlas_revision s \<and>
   UpdateUV env ysize flags a s = Inr (r, s') \<longrightarrow>
     (\<exists>b' res s2.
        buffers s' a = Some b' \<and> same_geometry b b' \<and>
        map position (vertices b') = map position (vertices b) \<and>
        caret_positions b' = caret_positions b \<and> code_points b' = code_points b \<and>
        (\<forall>x. x \<noteq> a \<longrightarrow> buffers s' x = buffers s x) \<and> map_buffers s' = map_buffers s \<and>
        resolve_code_points env ysize flags (code_points b)
          (s\<lparr>fonts := SetPixelSize (env_fo env) (fonts s) ysize\<rparr>) = Inr (res, s2) \<and>
        (r = None \<longleftrightarrow> res = None) \<and>
        (\<forall>es. res = Some es \<longrightarrow>
           r = Some a \<and> length es = length (code_points b) \<and>
           (\<forall>j<length es. \<forall>k<4.
              uv (vertices b' ! (j * 4 + k)) = uv_corner k (entry_uv (es ! j))) \<and>
           (code_points b \<noteq> [] \<longrightarrow>
              revision b' = cache_get_revision (env_co env) (glyph_cache s')) \<and>
           (code_points b = [] \<longrightarrow> revision b' = revision b)))"
proof (intro impI)
  assume a: "buffers s a = Some b \<and> revision b \<noteq> current_atlas_revision s \<and>
   UpdateUV env ysize flags a s = Inr (r, s')"
  let ?s = "s\<lparr>fonts := SetPixelSize (env_fo env) (fonts s) ysize\<rparr>"
  from a have b: "buffers ?s a = Some b" by simp
  from a have loop: "UpdateUV_loop env ysize flags a (code_points b) 0 ?s = Inr (r, s')"
    by (auto simp: UpdateUV_def split: option.splits)
  from UpdateUV_loop_frame [OF b loop] obtain b' where
    f1: "buffers s' a = Some b'" and f2: "same_geometry b b'"
    and f3: "\<forall>x. x \<noteq> a \<longrightarrow> buffers s' x = buffers s x"
    and f4: "map_buffers s' = map_buffers s" and f5: "r \<noteq> None \<longrightarrow> r = Some a"
    by auto
  from UpdateUV_loop_resolves [OF loop] obtain res s2 where
    r1: "resolve_code_points env ysize flags (code_points b) ?s = Inr (res, s2)"
    and r2: "r = None \<longleftrightarrow> res = None"
    and r3: "\<forall>es. res = Some es \<longrightarrow> length es = length (code_points b)"
    by blast
  have w: "\<forall>es. res = Some es \<longrightarrow>
           r = Some a \<and> length es = length (code_points b) \<and>
           (\<forall>j<length es. \<forall>k<4.
              uv (vertices b' ! (j * 4 + k)) = uv_corner k (entry_uv (es ! j))) \<and>
           (code_points b \<noteq> [] \<longrightarrow>
              revision b' = cache_get_revision (env_co env) (glyph_cache s')) \<and>
           (code_points b = [] \<longrightarrow> revision b' = revision b)"
  proof (intro allI impI)
    fix es assume es: "res = Some es"
    with r2 f5 have ra: "r = Some a" by simp
    from es r3 have len: "length es = length (code_points b)" by simp
    from loop ra have loop': "UpdateUV_loop env ysize flags a (code_points b) 0 ?s = Inr (Some a, s')"
      by simp
    from r1 es have r1': "resolve_code_points env ysize flags (code_points b) ?s = Inr (Some es, s2)"
      by simp
    from UpdateUV_loop_writes [OF b loop' r1' f1]
    have w1: "\<forall>j<length (code_points b). \<forall>k<4.
          uv (vertices b' ! ((0 + j) * 4 + k)) = uv_corner k (entry_uv (es ! j))"
      and w2: "code_points b \<noteq> [] \<longrightarrow> revision b' = cache_get_revision (env_co env) (glyph_cache s')"
      and w3: "code_points b = [] \<longrightarrow> s' = ?s"
      by simp_all
    from w3 b f1 have "code_points b = [] \<longrightarrow> revision b' = revision b" by auto
    with ra len w1 w2 show "r = Some a \<and> length es = length (code_points b) \<and>
           (\<forall>j<length es. \<forall>k<4.
              uv (vertices b' ! (j * 4 + k)) = uv_corner k (entry_uv (es ! j))) \<and>
           (code_points b \<noteq> [] \<longrightarrow>
              revision b' = cache_get_revision (env_co env) (glyph_cache s')) \<and>
           (code_points b = [] \<longrightarrow> revision b' = revision b)"
      by simp
  qed
  from f2 have "map position (vertices b') = map position (vertices b)"
    by (simp add: same_geometry_def)
  moreover from f2 have "caret_positions b' = caret_positions b" and "code_points b' = code_points b"
    by (rule same_geometry_fields)+
  ultimately show "\<exists>b' res s2.
        buffers s' a = Some b' \<and> same_geometry b b' \<and>
        map position (vertices b') = map position (vertices b) \<and>
        caret_positions b' = caret_positions b \<and> code_points b' = code_points b \<and>
        (\<forall>x. x \<noteq> a \<longrightarrow> buffers s' x = buffers s x) \<and> map_buffers s' = map_buffers s \<and>
        resolve_code_points env ysize flags (code_points b)
          (s\<lparr>fonts := SetPixelSize (env_fo env) (fonts s) ysize\<rparr>) = Inr (res, s2) \<and>
        (r = None \<longleftrightarrow> res = None) \<and>
        (\<forall>es. res = Some es \<longrightarrow>
           r = Some a \<and> length es = length (code_points b) \<and>
           (\<forall>j<length es. \<forall>k<4.
              uv (vertices b' ! (j * 4 + k)) = uv_corner k (entry_uv (es ! j))) \<and>
           (code_points b \<noteq> [] \<longrightarrow>
              revision b' = cache_get_revision (env_co env) (glyph_cache s')) \<and>
           (code_points b = [] \<longrightarrow> revision b' = revision b))"
    using f1 f2 f3 f4 r1 r2 w by blast
qed

text \<open>The equations that evaluate UpdateUV at the concrete inputs.\<close>

lemmas eval_UpdateUV = UpdateUV_def GetCachedEntry_def FontBuffer_UpdateUV_def
  ExpandAtlasTexture_def set_uv_def stale_manager_def no_glyph_flags_def uv_and_revision_def
  line_of_one_def FontBuffer_new_def glyph_at_origin_def vertices_x_def eval_nat_numeral

text \<open>
  C6 as the spec states it fails: a stale buffer that records no code point comes back
  from UpdateUV with its revision 0, where the revision of the cache is 1.
\<close>

theorem empty_buffer_counterexample:
  "code_points (FontBuffer_new 1 False :: int FontBuffer) = [] \<and>
   map_option revision (buffers (stale_manager (FontBuffer_new 1 False)) 0) = Some 0 \<and>
   current_atlas_revision (stale_manager (FontBuffer_new 1 False)) = 1 \<and>
   map_sum id uv_and_revision
     (UpdateUV tiny_env 10 no_glyph_flags 0 (stale_manager (FontBuffer_new 1 False)))
     = Inr (Some 0, Some ([], [], 0, 1))"
  by (simp add: eval_UpdateUV eval_manager)

text \<open>The theorem at a stale buffer of one glyph.\<close>

theorem UpdateUV_refreshes_uv_witness:
  "buffers (stale_manager line_of_one) 0
     = Some (line_of_one\<lparr>ref_count := 1, iterator := Some shared_text_parameters\<rparr>) \<and>
   revision (line_of_one\<lparr>ref_count := 1, iterator := Some shared_text_parameters\<rparr>)
     \<noteq> current_atlas_revision (stale_manager line_of_one) \<and>
   (\<exists>r s'. UpdateUV tiny_env 10 no_glyph_flags 0 (stale_manager line_of_one) = Inr (r, s') \<and>
      uv_and_revision (r, s')
        = (Some 0, Some ([(0, 0), (0, 1), (1, 0), (1, 1)], [0, 0, 0, 0], 2, 2)) \<and>
      (\<exists>b'. buffers s' 0 = Some b' \<and>
         same_geometry (line_of_one\<lparr>ref_count := 1, iterator := Some shared_text_parameters\<rparr>) b'))"
proof -
  let ?s = "stale_manager line_of_one"
  let ?b = "line_of_one\<lparr>ref_count := 1, iterator := Some shared_text_parameters\<rparr>"
  have h1: "buffers ?s 0 = Some ?b" by (simp add: stale_manager_def tiny_manager_def)
  have h2: "revision ?b \<noteq> current_atlas_revision ?s"
    by (simp add: stale_manager_def tiny_manager_def line_of_one_def FontBuffer_new_def)
  have e: "map_sum id uv_and_revision (UpdateUV tiny_env 10 no_glyph_flags 0 ?s)
     = Inr (Some 0, Some ([(0, 0), (0, 1), (1, 0), (1, 1)], [0, 0, 0, 0], 2, 2))"
    by (simp add: eval_UpdateUV eval_manager)
  then obtain r s' where u: "UpdateUV tiny_env 10 no_glyph_flags 0 ?s = Inr (r, s')"
    by (cases "UpdateUV tiny_env 10 no_glyph_flags 0 ?s") auto
  with e have v: "uv_and_revision (r, s')
      = (Some 0, Some ([(0, 0), (0, 1), (1, 0), (1, 1)], [0, 0, 0, 0], 2, 2))"
    by simp
  from h1 h2 u have h: "buffers ?s 0 = Some ?b \<and> revision ?b \<noteq> current_atlas_revision ?s \<and>
      UpdateUV tiny_env 10 no_glyph_flags 0 ?s = Inr (r, s')"
    by simp
  from UpdateUV_refreshes_uv [of ?s 0 ?b tiny_env 10 no_glyph_flags r s', THEN mp, OF h]
  obtain b' where "buffers s' 0 = Some b'" and "same_geometry ?b b'"
    by (elim exE conjE)
  with h1 h2 u v show ?thesis by blast
qed

section \<open>Properties of CreateBuffer and GetBuffer\<close>

lemma layout_frame_refl [simp]: "layout_frame s s 0"
  by (simp add: layout_frame_def)

lemma layout_frame_trans:
  "layout_frame s s1 j \<Longrightarrow> layout_frame s1 s2 k \<Longrightarrow> layout_frame s s2 (j + k)"
  by (auto simp: layout_frame_def intro: unchanged_outside_cache_trans)

lemma layout_frame_trans0:
  "layout_frame s s1 0 \<Longrightarrow> layout_frame s1 s2 k \<Longrightarrow> layout_frame s s2 k"
  using layout_frame_trans [of s s1 0 s2 k] by simp

lemma GetCachedEntry_frame:
  assumes "GetCachedEntry env code_point ysize flags s = Inr (r, s')"
  shows "layout_frame s s' (if r = None then 1 else 0)"
  using GetCachedEntry_unchanged [OF assms] GetCachedEntry_failures [OF assms]
  by (simp add: layout_frame_def)

lemma LayoutText_frame:
  assumes "LayoutText env text s = (w, s')"
  shows "layout_frame s s' 0"
  using assms
  by (auto simp: LayoutText_def Let_def layout_frame_def unchanged_outside_cache_def
      flushes_def fetch_failures_def)

lemma hb_buffer_clear_contents_frame: "layout_frame s (hb_buffer_clear_contents s) 0"
  by (simp add: hb_buffer_clear_contents_def layout_frame_def unchanged_outside_cache_def
      flushes_def fetch_failures_def)

lemma add_log_WordExceedsLine_frame: "layout_frame s (add_log LogInfo_WordExceedsLine s) 0"
  by (simp add: add_log_def layout_frame_def unchanged_outside_cache_def
      flushes_def fetch_failures_def)

lemma register_glyph_frame:
  assumes "register_glyph env parameters lc code_point cache pos v s = Inr (v', s')"
  shows "layout_frame s s' 0"
  using assms
  by (auto simp: register_glyph_def Let_def layout_frame_def unchanged_outside_cache_def
      flushes_def fetch_failures_def split: if_splits prod.splits)

lemma place_glyph_frame:
  assumes "place_glyph env parameters lc word_enum glyph_info idx last_glyph cache v s = Inr (v', s')"
  shows "layout_frame s s' 0"
proof -
  from assms obtain v1 where
    "(if fst (entry_size cache) \<noteq> 0 \<and> snd (entry_size cache) \<noteq> 0
      then register_glyph env parameters lc (codepoint (glyph_info ! idx)) cache
             (if layout_direction s = kTextLayoutDirectionRTL
              then vec2_sub (env_fl env) (lv_pos v)
                     (f_div (env_fl env) (f_mul (env_fl env) (f_of_int (env_fl env) (x_advance (glyph_info ! idx))) (lc_scale lc)) (f_of_int (env_fl env) (int (kFreeTypeUnit env))),
                      f_div (env_fl env) (f_mul (env_fl env) (f_of_int (env_fl env) (- y_advance (glyph_info ! idx))) (lc_scale lc)) (f_of_int (env_fl env) (int (kFreeTypeUnit env))))
              else lv_pos v) v s
      else Inr (v, s)) = Inr (v1, s')"
    by (auto simp: place_glyph_def Let_def split: sum.splits prod.splits if_splits)
  then show ?thesis
    by (auto split: if_splits dest: register_glyph_frame)
qed

lemma layout_glyphs_frame:
  assumes "layout_glyphs env parameters lc word_enum glyph_info idxs v s = Inr (r, s')"
  shows "layout_frame s s' (if r = None then 1 else 0)"
  using assms
proof (induction idxs arbitrary: v s)
  case Nil
  then show ?case by auto
next
  case (Cons idx rest)
  show ?case
  proof (cases "codepoint (glyph_info ! idx) = 0")
    case True
    with Cons show ?thesis by simp
  next
    case False
    let ?g = "GetCachedEntry env (codepoint (glyph_info ! idx)) (lc_converted_ysize lc)
                (get_glyph_flags parameters) s"
    from False Cons.prems obtain c s1 where g: "?g = Inr (c, s1)"
      by (cases ?g) auto
    show ?thesis
    proof (cases c)
      case None
      with g False Cons.prems have "r = None" and "s' = hb_buffer_clear_contents s1"
        by simp_all
      with GetCachedEntry_frame [OF g] None hb_buffer_clear_contents_frame [of s1]
      show ?thesis by (auto dest: layout_frame_trans)
    next
      case (Some cache)
      with g False Cons.prems obtain v1 s2 where
        p: "place_glyph env parameters lc word_enum glyph_info idx (rest = []) cache v s1
              = Inr (v1, s2)"
        and rec: "layout_glyphs env parameters lc word_enum glyph_info rest v1 s2 = Inr (r, s')"
        by (auto split: sum.splits prod.splits)
      from GetCachedEntry_frame [OF g] Some have "layout_frame s s1 0" by simp
      from layout_frame_trans0 [OF this place_glyph_frame [OF p]] have "layout_frame s s2 0" .
      from layout_frame_trans0 [OF this Cons.IH [OF rec]] show ?thesis .
    qed
  qed
qed

lemma wrap_word_frame:
  assumes "wrap_word env text parameters lc word_enum v s = Inr out"
  shows "layout_frame s (outcome_manager out) 0 \<and> \<not> returns_null out"
proof -
  obtain w s1 where l: "LayoutText env
      (take (GetCurrentWordLength word_enum) (drop (GetCurrentWordIndex word_enum) text)) s = (w, s1)"
    by (cases "LayoutText env
      (take (GetCurrentWordLength word_enum) (drop (GetCurrentWordIndex word_enum) text)) s") auto
  from LayoutText_frame [OF l] have f1: "layout_frame s s1 0" .
  from assms l have "(outcome_manager out = s1 \<or> outcome_manager out = hb_buffer_clear_contents s1
      \<or> outcome_manager out = add_log LogInfo_WordExceedsLine s1) \<and> \<not> returns_null out"
    by (auto simp: wrap_word_def Let_def outcome_manager_def returns_null_def
        split: sum.splits if_splits word_outcome.splits)
  with f1 hb_buffer_clear_contents_frame [of s1] add_log_WordExceedsLine_frame [of s1]
  show ?thesis by (auto dest: layout_frame_trans0)
qed

lemma layout_word_frame:
  assumes "layout_word env text len parameters lc word_enum v s = Inr out"
  shows "layout_frame s (outcome_manager out) (if returns_null out then 1 else 0)"
proof -
  let ?first = "(if \<not> lc_multi_line lc then
              (case LayoutText env (take len text) s of
                 (w, s1) \<Rightarrow>
                   let max_line_width =
                         to_uint32 (f_to_int (env_fl env) (f_mul (env_fl env) (f_of_int (env_fl env) (int w)) (lc_scale lc)))
                   in Inr (Continue
                        (v\<lparr>lv_max_line_width := max_line_width,
                           lv_pos := (if layout_direction s1 = kTextLayoutDirectionRTL \<and>
                                         fst (lc_size lc) = 0
                                      then (f_of_int (env_fl env) (int (max_line_width div kFreeTypeUnit env)),
                                            snd (lv_pos v))
                                      else lv_pos v)\<rparr>) s1))
            else wrap_word env text parameters lc word_enum v s)"
  from assms obtain out1 where o1: "?first = Inr out1"
    by (cases ?first) (auto simp: layout_word_def Let_def)
  have f1: "layout_frame s (outcome_manager out1) 0 \<and> \<not> returns_null out1"
  proof (cases "lc_multi_line lc")
    case True
    with o1 show ?thesis by (auto dest: wrap_word_frame)
  next
    case False
    obtain w s1 where l: "LayoutText env (take len text) s = (w, s1)"
      by (cases "LayoutText env (take len text) s") auto
    with False o1 LayoutText_frame [OF l] show ?thesis
      by (auto simp: Let_def outcome_manager_def returns_null_def)
  qed
  show ?thesis
  proof (cases out1)
    case (Break v1 s1)
    with assms o1 have "out = Break v1 s1" by (simp add: layout_word_def Let_def)
    with f1 Break show ?thesis by (simp add: outcome_manager_def returns_null_def)
  next
    case (ReturnNull s1)
    with f1 show ?thesis by (simp add: returns_null_def)
  next
    case (Continue v1 s1)
    with f1 have f1': "layout_frame s s1 0" by (simp add: outcome_manager_def)
    from assms o1 Continue obtain v2 r s2 where
      g: "layout_glyphs env parameters lc word_enum (harfbuzz_buf s1)
            (glyph_order (layout_direction s1) (length (harfbuzz_buf s1))) v2 s1 = Inr (r, s2)"
      and out: "(r = None \<and> out = ReturnNull s2) \<or>
                (\<exists>v3 v4. r = Some v3 \<and> out = Continue v4 (hb_buffer_clear_contents s2))"
      by (auto simp: layout_word_def Let_def split: sum.splits prod.splits option.splits if_splits)
    from layout_frame_trans0 [OF f1' layout_glyphs_frame [OF g]]
    have f2: "layout_frame s s2 (if r = None then 1 else 0)" .
    from out show ?thesis
    proof (elim disjE exE conjE)
      assume "r = None" and "out = ReturnNull s2"
      with f2 show ?thesis by (simp add: outcome_manager_def returns_null_def)
    next
      fix v3 v4 assume "r = Some v3" and o: "out = Continue v4 (hb_buffer_clear_contents s2)"
      with f2 have "layout_frame s s2 0" by simp
      from layout_frame_trans0 [OF this hb_buffer_clear_contents_frame]
      show ?thesis using o by (simp add: outcome_manager_def returns_null_def)
    qed
  qed
qed

lemma layout_words_frame:
  assumes "layout_words env str len parameters lc word_enum v s = Inr (r, s')"
  shows "layout_frame s s' (if r = None then 1 else 0)"
  using assms
proof (induction env str len parameters lc word_enum v s rule: layout_words.induct)
  case (1 env str len parameters lc word_enum v s)
  obtain has_next e where a: "Advance word_enum = (has_next, e)" by (cases "Advance word_enum") auto
  show ?case
  proof (cases has_next)
    case False
    with a "1.prems" show ?thesis by (auto simp: layout_words.simps)
  next
    case True
    with a "1.prems" obtain out where
      w: "layout_word env str len parameters lc e v s = Inr out"
      by (subst (asm) layout_words.simps) (auto split: sum.splits)
    note f = layout_word_frame [OF w]
    show ?thesis
    proof (cases out)
      case (Continue v1 s1)
      with a True w "1.prems" have
        rec: "layout_words env str len parameters lc e v1 s1 = Inr (r, s')"
        by (subst (asm) layout_words.simps) simp
      from f Continue have "layout_frame s s1 0"
        by (simp add: outcome_manager_def returns_null_def)
      from layout_frame_trans0 [OF this "1.IH" [OF a [symmetric] eqTrueI [OF True] w Continue rec]]
      show ?thesis .
    next
      case (Break v1 s1)
      with a True w "1.prems" have "r = Some v1" and "s' = s1"
        by (subst (asm) layout_words.simps, simp)+
      with f Break show ?thesis by (simp add: outcome_manager_def returns_null_def)
    next
      case (ReturnNull s1)
      with a True w "1.prems" have "r = None" and "s' = s1"
        by (subst (asm) layout_words.simps, simp)+
      with f ReturnNull show ?thesis by (simp add: outcome_manager_def returns_null_def)
    qed
  qed
qed

lemma finish_buffer_result:
  assumes "finish_buffer env parameters lc v s = Inr (r, s')"
  shows "flushes s' = flushes s \<and> fetch_failures s' = fetch_failures s \<and>
         (\<exists>a. r = Some a \<and> map_buffers s' parameters = Some a \<and>
              (\<exists>b. buffers s' a = Some b)) \<and>
         (map_buffers s parameters = None \<longrightarrow>
            r = Some (lc_buffer lc) \<and>
            map_buffers s' = (map_buffers s)(parameters \<mapsto> lc_buffer lc) \<and>
            (\<exists>b3. Verify env b3 \<and> ref_count b3 = 1 \<and>
               buffers s' = (buffers s)(lc_buffer lc \<mapsto> b3\<lparr>iterator := Some parameters\<rparr>)))"
  using assms
  by (auto simp: finish_buffer_def Let_def flushes_def fetch_failures_def
      split: sum.splits if_splits option.splits)

lemma begin_layout_frame:
  assumes "begin_layout env text len parameters ysize converted_ysize s = (lc, word_enum, v, s3)"
  shows "map_buffers s3 = map_buffers s \<and> buffers s3 = buffers s \<and> flushes s3 = flushes s \<and>
         fetch_failures s3 = fetch_failures s \<and> lc_buffer lc = next_buffer s"
  using assms
  by (auto simp: begin_layout_def Let_def flushes_def fetch_failures_def)

lemma CreateBuffer_constructs:
  assumes m: "map_buffers s parameters = None"
    and c: "CreateBuffer env text len parameters s = Inr (r, s')"
  shows "flushes s' = flushes s \<and>
         fetch_failures s' = fetch_failures s + (if r = None then 1 else 0) \<and>
         (r = None \<longrightarrow> map_buffers s' = map_buffers s \<and> buffers s' = buffers s) \<and>
         (\<forall>a. r = Some a \<longrightarrow>
            a = next_buffer s \<and> map_buffers s' = (map_buffers s)(parameters \<mapsto> a) \<and>
            (\<exists>b3. Verify env b3 \<and> ref_count b3 = 1 \<and>
               buffers s' = (buffers s)(a \<mapsto> b3\<lparr>iterator := Some parameters\<rparr>)))"
proof -
  let ?ysize = "f_to_int (env_fl env) (get_font_size parameters)"
  obtain lc word_enum v s3 where
    bl: "begin_layout env text len parameters ?ysize (ConvertSize s ?ysize) s = (lc, word_enum, v, s3)"
    by (cases "begin_layout env text len parameters ?ysize (ConvertSize s ?ysize) s") auto
  from begin_layout_frame [OF bl]
  have s3: "map_buffers s3 = map_buffers s" "buffers s3 = buffers s" "flushes s3 = flushes s"
    "fetch_failures s3 = fetch_failures s" and lcb: "lc_buffer lc = next_buffer s"
    by simp_all
  from m c bl obtain r1 s4 where
    lw: "layout_words env text len parameters lc word_enum v s3 = Inr (r1, s4)"
    and fin: "(r1 = None \<and> r = None \<and> s' = s4) \<or>
              (\<exists>v1. r1 = Some v1 \<and> finish_buffer env parameters lc v1 s4 = Inr (r, s'))"
    by (auto simp: CreateBuffer_def Let_def split: option.splits sum.splits prod.splits)
  from layout_words_frame [OF lw] s3
  have f: "map_buffers s4 = map_buffers s" "buffers s4 = buffers s" "flushes s4 = flushes s"
    "fetch_failures s4 = fetch_failures s + (if r1 = None then 1 else 0)"
    by (simp_all add: layout_frame_def unchanged_outside_cache_def)
  from fin show ?thesis
  proof (elim disjE exE conjE)
    assume "r1 = None" and "r = None" and "s' = s4"
    with f show ?thesis by simp
  next
    fix v1 assume r1: "r1 = Some v1"
      and fb: "finish_buffer env parameters lc v1 s4 = Inr (r, s')"
    from m f have "map_buffers s4 parameters = None" by simp
    with finish_buffer_result [OF fb] f r1 lcb show ?thesis by auto
  qed
qed

lemma UpdateUV_frame:
  assumes "buffers s a = Some b" and "UpdateUV env ysize flags a s = Inr (r, s')"
  shows "\<exists>b'. buffers s' a = Some b' \<and> same_geometry b b' \<and>
           (\<forall>x. x \<noteq> a \<longrightarrow> buffers s' x = buffers s x) \<and>
           map_buffers s' = map_buffers s \<and> flushes s' = flushes s \<and>
           (r \<noteq> None \<longrightarrow> r = Some a)"
proof (cases "revision b \<noteq> current_atlas_revision s")
  case False
  with assms show ?thesis by (auto simp: UpdateUV_def)
next
  case True
  let ?s = "s\<lparr>fonts := SetPixelSize (env_fo env) (fonts s) ysize\<rparr>"
  from assms(1) have b: "buffers ?s a = Some b" by simp
  from assms True have "UpdateUV_loop env ysize flags a (code_points b) 0 ?s = Inr (r, s')"
    by (auto simp: UpdateUV_def split: option.splits)
  from UpdateUV_loop_frame [OF b this] show ?thesis
    by (auto simp: flushes_def)
qed

lemma same_geometry_same_layout:
  assumes "same_geometry (b\<lparr>pass := p\<rparr>) b'"
  shows "same_layout b (b'\<lparr>ref_count := n\<rparr>)" and "same_layout b b'"
proof -
  from assms have e: "b'\<lparr>vertices := vertices b, revision := revision b\<rparr> = b\<lparr>pass := p\<rparr>"
    and m: "map position (vertices b') = map position (vertices b)"
    by (simp_all add: same_geometry_def)
  from e have "(b'\<lparr>vertices := vertices b, revision := revision b\<rparr>)
                 \<lparr>pass := pass b, ref_count := ref_count b\<rparr>
               = (b\<lparr>pass := p\<rparr>)\<lparr>pass := pass b, ref_count := ref_count b\<rparr>"
    by (rule arg_cong)
  then have "b'\<lparr>vertices := vertices b, revision := revision b, pass := pass b,
               ref_count := ref_count b\<rparr> = b"
    by simp
  with m show "same_layout b (b'\<lparr>ref_count := n\<rparr>)" and "same_layout b b'"
    by (simp_all add: same_layout_def)
qed

lemma same_geometry_ref_count:
  "same_geometry b b' \<Longrightarrow> ref_count b' = ref_count b"
  by (rule same_geometry_fields)

lemma reuse_buffer_result:
  assumes b: "buffers s a = Some b"
    and u: "reuse_buffer env parameters ysize a s = Inr (r, s')"
  shows "map_buffers s' = map_buffers s \<and> flushes s' = flushes s \<and>
         (\<forall>x. x \<noteq> a \<longrightarrow> buffers s' x = buffers s x) \<and>
         (r = None \<or> r = Some a) \<and>
         (\<exists>b'. buffers s' a = Some b' \<and> same_layout b b' \<and>
            (r = Some a \<longrightarrow>
               ref_count b' = ref_count b + (if get_ref_count_flag parameters then 1 else 0)))"
proof -
  let ?p = "if current_pass s \<noteq> kRenderPass env then current_pass s else pass b"
  let ?s1 = "if current_pass s \<noteq> kRenderPass env
             then s\<lparr>buffers := (buffers s)(a \<mapsto> b\<lparr>pass := current_pass s\<rparr>)\<rparr> else s"
  have b1: "buffers ?s1 a = Some (b\<lparr>pass := ?p\<rparr>)" using b by simp
  from b u obtain ret s2 where
    uv: "UpdateUV env ysize (get_glyph_flags parameters) a ?s1 = Inr (ret, s2)"
    by (auto simp: reuse_buffer_def Let_def split: sum.splits)
  from UpdateUV_frame [OF b1 uv] obtain b2 where
    f1: "buffers s2 a = Some b2" and f2: "same_geometry (b\<lparr>pass := ?p\<rparr>) b2"
    and f3: "\<forall>x. x \<noteq> a \<longrightarrow> buffers s2 x = buffers ?s1 x"
    and f4: "map_buffers s2 = map_buffers ?s1" and f5: "flushes s2 = flushes ?s1"
    and f6: "ret \<noteq> None \<longrightarrow> ret = Some a"
    by blast
  from f2 have rc: "ref_count b2 = ref_count b"
    using same_geometry_ref_count [OF f2] by simp
  have pre: "map_buffers ?s1 = map_buffers s" "flushes ?s1 = flushes s"
    "\<forall>x. x \<noteq> a \<longrightarrow> buffers ?s1 x = buffers s x"
    by (simp_all add: flushes_def)
  show ?thesis
  proof (cases "get_ref_count_flag parameters")
    case False
    with b u uv have "r = ret" and "s' = s2"
      by (auto simp: reuse_buffer_def Let_def)
    with f1 f3 f4 f5 f6 rc pre same_geometry_same_layout(2) [OF f2] False
    show ?thesis by auto
  next
    case True
    with b u uv f6 have ra: "ret = Some a"
      by (auto simp: reuse_buffer_def Let_def split: option.splits)
    with True b u uv f1 have r: "r = Some a"
      and s': "s' = s2\<lparr>buffers := (buffers s2)(a \<mapsto> b2\<lparr>ref_count := ref_count b2 + 1\<rparr>)\<rparr>"
      by (auto simp: reuse_buffer_def Let_def)
    from s' f3 f4 f5 pre r rc True same_geometry_same_layout(1) [OF f2, of "ref_count b2 + 1"]
    show ?thesis by (auto simp: flushes_def)
  qed
qed

lemma reuse_buffer_fresh:
  assumes b: "buffers s a = Some b" and rv: "revision b = current_atlas_revision s"
  shows "reuse_buffer env parameters ysize a s
     = Inr (Some a,
            s\<lparr>buffers := (buffers s)
                 (a \<mapsto> b\<lparr>pass := (if current_pass s \<noteq> kRenderPass env then current_pass s
                                   else pass b),
                          ref_count := ref_count b
                             + (if get_ref_count_flag parameters then 1 else 0)\<rparr>)\<rparr>)"
proof -
  have e: "b\<lparr>pass := pass b, ref_count := ref_count b\<rparr> = b" by simp
  have e2: "s\<lparr>buffers := (buffers s)(a \<mapsto> b)\<rparr> = s"
    using b by (simp add: fun_upd_idem)
  show ?thesis
    using b rv e e2 by (simp add: reuse_buffer_def UpdateUV_def Let_def)
qed

lemma CreateBuffer_reuses:
  assumes m: "map_buffers s parameters = Some a"
    and c: "CreateBuffer env text len parameters s = Inr (r, s')"
  shows "\<exists>b. buffers s a = Some b \<and>
           reuse_buffer env parameters
             (ConvertSize s (f_to_int (env_fl env) (get_font_size parameters))) a s = Inr (r, s')"
  using assms
  by (auto simp: CreateBuffer_def Let_def reuse_buffer_def split: option.splits)

lemma CreateBuffer_flushes:
  assumes "CreateBuffer env text len parameters s = Inr (r, s')"
  shows "flushes s' = flushes s"
proof (cases "map_buffers s parameters")
  case None
  from CreateBuffer_constructs [OF None assms] show ?thesis by simp
next
  case (Some a)
  from CreateBuffer_reuses [OF Some assms] obtain b where
    b: "buffers s a = Some b"
    and u: "reuse_buffer env parameters
             (ConvertSize s (f_to_int (env_fl env) (get_font_size parameters))) a s = Inr (r, s')"
    by blast
  from reuse_buffer_result [OF b u] show ?thesis by simp
qed

lemma CreateBuffer_returns_owned:
  assumes "CreateBuffer env text len parameters s = Inr (Some a, s')"
  shows "map_buffers s' parameters = Some a \<and> (\<exists>b. buffers s' a = Some b)"
proof (cases "map_buffers s parameters")
  case None
  from CreateBuffer_constructs [OF None assms] show ?thesis by auto
next
  case (Some it)
  from CreateBuffer_reuses [OF Some assms] obtain b where
    b: "buffers s it = Some b"
    and u: "reuse_buffer env parameters
             (ConvertSize s (f_to_int (env_fl env) (get_font_size parameters))) it s
            = Inr (Some a, s')"
    by blast
  from reuse_buffer_result [OF b u] Some show ?thesis by auto
qed

lemma GetBuffer_returns:
  assumes "GetBuffer env text len parameter s = Inr (Some a, s')"
  shows "\<exists>s1. CreateBuffer env text (len mod 2 ^ 32) parameter s1 = Inr (Some a, s')"
  using assms
  by (auto simp: GetBuffer_def split: sum.splits option.splits prod.splits)

lemma Inr_result:
  assumes "map_sum id fst X = Inr r"
  shows "X = Inr (r, snd (projr X))"
  using assms by (cases X) auto

text \<open>
  C1. When the first construction in GetBuffer returns null and GetBuffer returns, it has
  flushed the glyph cache exactly once: FlushAndUpdate ran once on the manager that the
  failed construction left, one construction was retried on the flushed manager, and
  neither construction flushed. The result of GetBuffer is the result of that retry, so
  it is null only if the retry returned null as well, and then the error is logged. When
  the first construction returns a buffer, GetBuffer returns it without any flush.
\<close>

theorem GetBuffer_retries_once:
  "(CreateBuffer env text (len mod 2 ^ 32) parameter s = Inr (Some a, s1) \<longrightarrow>
      GetBuffer env text len parameter s = Inr (Some a, s1) \<and> flushes s1 = flushes s) \<and>
   (CreateBuffer env text (len mod 2 ^ 32) parameter s = Inr (None, s1) \<and>
    GetBuffer env text len parameter s = Inr (r, s3) \<longrightarrow>
      flushes s3 = flushes s + 1 \<and>
      (\<exists>s2 s2'. FlushAndUpdate env s1 = Inr s2 \<and> flushes s2 = flushes s1 + 1 \<and>
         CreateBuffer env text (len mod 2 ^ 32) parameter s2 = Inr (r, s2') \<and>
         flushes s2' = flushes s2 \<and>
         s3 = (if r = None then add_log LogError_TextDoesNotFit s2' else s2')))"
proof (intro conjI impI)
  assume c: "CreateBuffer env text (len mod 2 ^ 32) parameter s = Inr (Some a, s1)"
  then show "GetBuffer env text len parameter s = Inr (Some a, s1)"
    by (simp add: GetBuffer_def)
  from CreateBuffer_flushes [OF c] show "flushes s1 = flushes s" .
next
  assume a: "CreateBuffer env text (len mod 2 ^ 32) parameter s = Inr (None, s1) \<and>
    GetBuffer env text len parameter s = Inr (r, s3)"
  then have c: "CreateBuffer env text (len mod 2 ^ 32) parameter s = Inr (None, s1)"
    and g: "GetBuffer env text len parameter s = Inr (r, s3)"
    by simp_all
  from c g obtain s2 s2' where
    fu: "FlushAndUpdate env s1 = Inr s2"
    and c2: "CreateBuffer env text (len mod 2 ^ 32) parameter s2 = Inr (r, s2')"
    and s3: "s3 = (if r = None then add_log LogError_TextDoesNotFit s2' else s2')"
    by (auto simp: GetBuffer_def split: sum.splits option.splits prod.splits)
  from fu have f2: "flushes s2 = flushes s1 + 1"
    using UpdatePass_start_subpass [of env s1 s2] by (simp add: FlushAndUpdate_def)
  from CreateBuffer_flushes [OF c] have f1: "flushes s1 = flushes s" .
  from CreateBuffer_flushes [OF c2] have f3: "flushes s2' = flushes s2" .
  from s3 have "flushes s3 = flushes s2'" by (simp add: flushes_def add_log_def)
  with f1 f2 f3 show "flushes s3 = flushes s + 1" by simp
  from fu f2 c2 f3 s3
  show "\<exists>s2 s2'. FlushAndUpdate env s1 = Inr s2 \<and> flushes s2 = flushes s1 + 1 \<and>
         CreateBuffer env text (len mod 2 ^ 32) parameter s2 = Inr (r, s2') \<and>
         flushes s2' = flushes s2 \<and>
         s3 = (if r = None then add_log LogError_TextDoesNotFit s2' else s2')"
    by blast
qed

text \<open>
  The theorem at an empty text, which is built at once, and at a text of one glyph in a
  manager whose cache holds no glyph: both constructions fail around one flush.
\<close>

theorem GetBuffer_retries_once_witness:
  "(\<exists>s1. CreateBuffer tiny_env '''' (0 mod 2 ^ 32) shared_text_parameters (tiny_manager 4)
            = Inr (Some 0, s1) \<and>
         GetBuffer tiny_env '''' 0 shared_text_parameters (tiny_manager 4) = Inr (Some 0, s1) \<and>
         flushes s1 = flushes (tiny_manager 4)) \<and>
   (\<exists>s1 s3. CreateBuffer tiny_env ''A'' (1 mod 2 ^ 32) shared_text_parameters (tiny_manager 0)
               = Inr (None, s1) \<and>
         GetBuffer tiny_env ''A'' 1 shared_text_parameters (tiny_manager 0) = Inr (None, s3) \<and>
         flushes s3 = flushes (tiny_manager 0) + 1)"
proof -
  let ?p = shared_text_parameters
  have m0: "(0::nat) mod 2 ^ 32 = 0" and m1: "(1::nat) mod 2 ^ 32 = 1" by simp_all
  let ?Y = "CreateBuffer tiny_env '''' 0 ?p (tiny_manager 4)"
  have "map_sum id fst ?Y = Inr (Some 0)" by code_simp
  then have "?Y = Inr (Some 0, snd (projr ?Y))" by (rule Inr_result)
  then obtain t1 where
    y: "CreateBuffer tiny_env '''' (0 mod 2 ^ 32) ?p (tiny_manager 4) = Inr (Some 0, t1)"
    by simp
  from GetBuffer_retries_once [of tiny_env "''''" 0 ?p "tiny_manager 4" 0 t1,
      THEN conjunct1, THEN mp, OF y]
  have "GetBuffer tiny_env '''' 0 ?p (tiny_manager 4) = Inr (Some 0, t1)"
    and "flushes t1 = flushes (tiny_manager 4)"
    by simp_all
  with y have part1: "\<exists>s1.
         CreateBuffer tiny_env '''' (0 mod 2 ^ 32) ?p (tiny_manager 4) = Inr (Some 0, s1) \<and>
         GetBuffer tiny_env '''' 0 ?p (tiny_manager 4) = Inr (Some 0, s1) \<and>
         flushes s1 = flushes (tiny_manager 4)"
    by blast
  let ?X1 = "CreateBuffer tiny_env ''A'' 1 ?p (tiny_manager 0)"
  have "map_sum id fst ?X1 = Inr None" by code_simp
  then have "?X1 = Inr (None, snd (projr ?X1))" by (rule Inr_result)
  then obtain s1 where x1: "?X1 = Inr (None, s1)" and s1: "s1 = snd (projr ?X1)" by simp
  let ?X2 = "FlushAndUpdate tiny_env (snd (projr ?X1))"
  have "\<not> isl ?X2" by code_simp
  then have "?X2 = Inr (projr ?X2)" by (cases ?X2) auto
  with s1 obtain s2 where x2: "FlushAndUpdate tiny_env s1 = Inr s2" and s2: "s2 = projr ?X2"
    by simp
  let ?X3 = "CreateBuffer tiny_env ''A'' 1 ?p (projr ?X2)"
  have "map_sum id fst ?X3 = Inr None" by code_simp
  then have "?X3 = Inr (None, snd (projr ?X3))" by (rule Inr_result)
  with s2 obtain s3 where x3: "CreateBuffer tiny_env ''A'' 1 ?p s2 = Inr (None, s3)"
    by simp
  have g: "GetBuffer tiny_env ''A'' 1 ?p (tiny_manager 0)
             = Inr (None, add_log LogError_TextDoesNotFit s3)"
    unfolding GetBuffer_def m1 x1 by (simp only: sum.case prod.case option.case x2 x3)
  from x1 g have h: "CreateBuffer tiny_env ''A'' (1 mod 2 ^ 32) ?p (tiny_manager 0) = Inr (None, s1) \<and>
      GetBuffer tiny_env ''A'' 1 ?p (tiny_manager 0) = Inr (None, add_log LogError_TextDoesNotFit s3)"
    unfolding m1 by simp
  from GetBuffer_retries_once [of tiny_env "''A''" 1 ?p "tiny_manager 0" _ s1 None
      "add_log LogError_TextDoesNotFit s3", THEN conjunct2, THEN mp, OF h]
  have "flushes (add_log LogError_TextDoesNotFit s3) = flushes (tiny_manager 0) + 1"
    by simp
  with h have part2: "\<exists>s1 s3.
         CreateBuffer tiny_env ''A'' (1 mod 2 ^ 32) ?p (tiny_manager 0) = Inr (None, s1) \<and>
         GetBuffer tiny_env ''A'' 1 ?p (tiny_manager 0) = Inr (None, s3) \<and>
         flushes s3 = flushes (tiny_manager 0) + 1"
    by blast
  from part1 part2 show ?thesis by blast
qed

text \<open>
  C2. A call of CreateBuffer that returns null leaves the map of buffers as it was. When
  the parameters have no buffer yet, so that a buffer is constructed, the call returns
  null exactly when a fetch of a glyph from the cache failed, and it stops at that first
  failure; then the store of buffers is unchanged as well, so no partial buffer is
  returned or kept. A construction that returns a buffer met no failed fetch, and has
  inserted a verified buffer with reference count 1 under the parameters.
\<close>

theorem CreateBuffer_failed_construction:
  "CreateBuffer env text len parameters s = Inr (r, s') \<longrightarrow>
     (r = None \<longrightarrow> map_buffers s' = map_buffers s) \<and>
     (map_buffers s parameters = None \<longrightarrow>
        (r = None \<longleftrightarrow> fetch_failures s' = fetch_failures s + 1) \<and>
        (r = None \<longrightarrow> buffers s' = buffers s) \<and>
        (\<forall>a. r = Some a \<longrightarrow>
           fetch_failures s' = fetch_failures s \<and>
           map_buffers s' = (map_buffers s)(parameters \<mapsto> a) \<and>
           (\<exists>b. Verify env b \<and> ref_count b = 1 \<and>
              buffers s' = (buffers s)(a \<mapsto> b\<lparr>iterator := Some parameters\<rparr>))))"
proof (intro impI conjI)
  assume c: "CreateBuffer env text len parameters s = Inr (r, s')"
  {
    assume r: "r = None"
    show "map_buffers s' = map_buffers s"
    proof (cases "map_buffers s parameters")
      case None
      from CreateBuffer_constructs [OF None c] r show ?thesis by simp
    next
      case (Some it)
      from CreateBuffer_reuses [OF Some c] obtain b where
        b: "buffers s it = Some b"
        and u: "reuse_buffer env parameters
                 (ConvertSize s (f_to_int (env_fl env) (get_font_size parameters))) it s
                = Inr (r, s')"
        by blast
      from reuse_buffer_result [OF b u] show ?thesis by simp
    qed
  }
  assume m: "map_buffers s parameters = None"
  note k = CreateBuffer_constructs [OF m c]
  from k show "r = None \<longleftrightarrow> fetch_failures s' = fetch_failures s + 1"
    by (cases r) auto
  from k show "r = None \<Longrightarrow> buffers s' = buffers s" by simp
  from k show "\<forall>a. r = Some a \<longrightarrow>
           fetch_failures s' = fetch_failures s \<and>
           map_buffers s' = (map_buffers s)(parameters \<mapsto> a) \<and>
           (\<exists>b. Verify env b \<and> ref_count b = 1 \<and>
              buffers s' = (buffers s)(a \<mapsto> b\<lparr>iterator := Some parameters\<rparr>))"
    by auto
qed

text \<open>
  The theorem at a text of one glyph: in a manager whose cache holds no glyph the
  construction fails, and in one whose cache holds four glyphs it returns buffer 0.
\<close>

theorem CreateBuffer_failed_construction_witness:
  "map_buffers (tiny_manager 0) shared_text_parameters = None \<and>
   (\<exists>s'. CreateBuffer tiny_env ''A'' 1 shared_text_parameters (tiny_manager 0) = Inr (None, s') \<and>
      fetch_failures s' = fetch_failures (tiny_manager 0) + 1 \<and>
      map_buffers s' = map_buffers (tiny_manager 0) \<and>
      buffers s' = buffers (tiny_manager 0)) \<and>
   map_buffers (tiny_manager 4) shared_text_parameters = None \<and>
   (\<exists>s'. CreateBuffer tiny_env ''A'' 1 shared_text_parameters (tiny_manager 4)
           = Inr (Some 0, s') \<and>
      fetch_failures s' = fetch_failures (tiny_manager 4) \<and>
      map_buffers s' = (map_buffers (tiny_manager 4))(shared_text_parameters \<mapsto> 0) \<and>
      (\<exists>b. Verify tiny_env b \<and> ref_count b = 1 \<and>
         buffers s' = (buffers (tiny_manager 4))
                        (0 \<mapsto> b\<lparr>iterator := Some shared_text_parameters\<rparr>)))"
proof -
  let ?X = "CreateBuffer tiny_env ''A'' 1 shared_text_parameters (tiny_manager 0)"
  have m: "map_buffers (tiny_manager 0) shared_text_parameters = None"
    by (simp add: tiny_manager_def)
  have "map_sum id fst ?X = Inr None" by code_simp
  then have "?X = Inr (None, snd (projr ?X))" by (rule Inr_result)
  then obtain s' where x: "?X = Inr (None, s')" ..
  note t = CreateBuffer_failed_construction
    [of tiny_env "''A''" 1 shared_text_parameters "tiny_manager 0" None s', THEN mp, OF x]
  from t [THEN conjunct1] have "map_buffers s' = map_buffers (tiny_manager 0)" by simp
  moreover from t [THEN conjunct2, THEN mp, OF m]
  have "fetch_failures s' = fetch_failures (tiny_manager 0) + 1"
    and "buffers s' = buffers (tiny_manager 0)"
    by simp_all
  ultimately have failed: "\<exists>s'. ?X = Inr (None, s') \<and>
      fetch_failures s' = fetch_failures (tiny_manager 0) + 1 \<and>
      map_buffers s' = map_buffers (tiny_manager 0) \<and>
      buffers s' = buffers (tiny_manager 0)"
    using x by blast
  let ?Y = "CreateBuffer tiny_env ''A'' 1 shared_text_parameters (tiny_manager 4)"
  have n: "map_buffers (tiny_manager 4) shared_text_parameters = None"
    by (simp add: tiny_manager_def)
  have "map_sum id fst ?Y = Inr (Some 0)" by code_simp
  then have "?Y = Inr (Some 0, snd (projr ?Y))" by (rule Inr_result)
  then obtain s'' where y: "?Y = Inr (Some 0, s'')" ..
  from CreateBuffer_failed_construction
    [of tiny_env "''A''" 1 shared_text_parameters "tiny_manager 4" "Some 0" s'',
     THEN mp, OF y, THEN conjunct2, THEN mp, OF n]
  have "fetch_failures s'' = fetch_failures (tiny_manager 4) \<and>
      map_buffers s'' = (map_buffers (tiny_manager 4))(shared_text_parameters \<mapsto> 0) \<and>
      (\<exists>b. Verify tiny_env b \<and> ref_count b = 1 \<and>
         buffers s'' = (buffers (tiny_manager 4))
                        (0 \<mapsto> b\<lparr>iterator := Some shared_text_parameters\<rparr>))"
    by simp
  with y have built: "\<exists>s'. ?Y = Inr (Some 0, s') \<and>
      fetch_failures s' = fetch_failures (tiny_manager 4) \<and>
      map_buffers s' = (map_buffers (tiny_manager 4))(shared_text_parameters \<mapsto> 0) \<and>
      (\<exists>b. Verify tiny_env b \<and> ref_count b = 1 \<and>
         buffers s' = (buffers (tiny_manager 4))
                        (0 \<mapsto> b\<lparr>iterator := Some shared_text_parameters\<rparr>))"
    by blast
  from m failed n built show ?thesis by blast
qed

text \<open>
  C3. After a call of GetBuffer that returned buffer \<open>a\<close>, the parameters map to \<open>a\<close>.
  When the revision of that buffer is the current revision of the atlas, a second call of
  GetBuffer with the same parameters returns \<open>a\<close> again, and changes nothing but the pass
  of the buffer and its reference count, which grows by 1 if the parameters ask for
  reference counting and not at all otherwise. Whatever the revision is, the construction
  of the second call lays out nothing: a buffer it returns is \<open>a\<close>, whose layout is the
  one it had (only UV coordinates, revision, pass and reference count may differ), with
  the reference count grown in the same way; no other buffer is touched.
\<close>

theorem GetBuffer_returns_same_buffer:
  "GetBuffer env text len parameters s0 = Inr (Some a, s) \<longrightarrow>
     (\<exists>b. map_buffers s parameters = Some a \<and> buffers s a = Some b \<and>
        (revision b = current_atlas_revision s \<longrightarrow>
           GetBuffer env text' len' parameters s
             = Inr (Some a,
                    s\<lparr>buffers := (buffers s)
                         (a \<mapsto> b\<lparr>pass := (if current_pass s \<noteq> kRenderPass env
                                            then current_pass s else pass b),
                                  ref_count := ref_count b
                                     + (if get_ref_count_flag parameters then 1 else 0)\<rparr>)\<rparr>)) \<and>
        (\<forall>r s'. CreateBuffer env text' len' parameters s = Inr (r, s') \<longrightarrow>
           (r = None \<or> r = Some a) \<and> map_buffers s' = map_buffers s \<and>
           (\<forall>x. x \<noteq> a \<longrightarrow> buffers s' x = buffers s x) \<and>
           (\<exists>b'. buffers s' a = Some b' \<and> same_layout b b' \<and>
              (r = Some a \<longrightarrow>
                 ref_count b' = ref_count b
                    + (if get_ref_count_flag parameters then 1 else 0)))))"
proof (intro impI)
  assume "GetBuffer env text len parameters s0 = Inr (Some a, s)"
  from GetBuffer_returns [OF this] obtain s1 where
    c0: "CreateBuffer env text (len mod 2 ^ 32) parameters s1 = Inr (Some a, s)" ..
  from CreateBuffer_returns_owned [OF c0] obtain b where
    m: "map_buffers s parameters = Some a" and b: "buffers s a = Some b"
    by blast
  let ?y = "ConvertSize s (f_to_int (env_fl env) (get_font_size parameters))"
  have eq: "CreateBuffer env text' len' parameters s = reuse_buffer env parameters ?y a s"
    using m by (simp add: CreateBuffer_def Let_def)
  have fresh: "revision b = current_atlas_revision s \<longrightarrow>
           GetBuffer env text' len' parameters s
             = Inr (Some a,
                    s\<lparr>buffers := (buffers s)
                         (a \<mapsto> b\<lparr>pass := (if current_pass s \<noteq> kRenderPass env
                                            then current_pass s else pass b),
                                  ref_count := ref_count b
                                     + (if get_ref_count_flag parameters then 1 else 0)\<rparr>)\<rparr>)"
    using reuse_buffer_fresh [OF b, of env parameters ?y] m
    by (simp add: GetBuffer_def CreateBuffer_def Let_def)
  have any: "\<forall>r s'. CreateBuffer env text' len' parameters s = Inr (r, s') \<longrightarrow>
           (r = None \<or> r = Some a) \<and> map_buffers s' = map_buffers s \<and>
           (\<forall>x. x \<noteq> a \<longrightarrow> buffers s' x = buffers s x) \<and>
           (\<exists>b'. buffers s' a = Some b' \<and> same_layout b b' \<and>
              (r = Some a \<longrightarrow>
                 ref_count b' = ref_count b
                    + (if get_ref_count_flag parameters then 1 else 0)))"
  proof (intro allI impI)
    fix r s' assume "CreateBuffer env text' len' parameters s = Inr (r, s')"
    with eq have u: "reuse_buffer env parameters ?y a s = Inr (r, s')" by simp
    from reuse_buffer_result [OF b u]
    show "(r = None \<or> r = Some a) \<and> map_buffers s' = map_buffers s \<and>
           (\<forall>x. x \<noteq> a \<longrightarrow> buffers s' x = buffers s x) \<and>
           (\<exists>b'. buffers s' a = Some b' \<and> same_layout b b' \<and>
              (r = Some a \<longrightarrow>
                 ref_count b' = ref_count b
                    + (if get_ref_count_flag parameters then 1 else 0)))"
      by blast
  qed
  from m b fresh any show "\<exists>b. map_buffers s parameters = Some a \<and> buffers s a = Some b \<and>
        (revision b = current_atlas_revision s \<longrightarrow>
           GetBuffer env text' len' parameters s
             = Inr (Some a,
                    s\<lparr>buffers := (buffers s)
                         (a \<mapsto> b\<lparr>pass := (if current_pass s \<noteq> kRenderPass env
                                            then current_pass s else pass b),
                                  ref_count := ref_count b
                                     + (if get_ref_count_flag parameters then 1 else 0)\<rparr>)\<rparr>)) \<and>
        (\<forall>r s'. CreateBuffer env text' len' parameters s = Inr (r, s') \<longrightarrow>
           (r = None \<or> r = Some a) \<and> map_buffers s' = map_buffers s \<and>
           (\<forall>x. x \<noteq> a \<longrightarrow> buffers s' x = buffers s x) \<and>
           (\<exists>b'. buffers s' a = Some b' \<and> same_layout b b' \<and>
              (r = Some a \<longrightarrow>
                 ref_count b' = ref_count b
                    + (if get_ref_count_flag parameters then 1 else 0))))"
    by blast
qed

text \<open>
  The theorem at two calls with an empty text and parameters that ask for reference
  counting: the reference count of buffer 0 goes from 1 to 2.
\<close>

theorem GetBuffer_returns_same_buffer_witness:
  "\<exists>s b. GetBuffer tiny_env '''' 0 shared_text_parameters (tiny_manager 4) = Inr (Some 0, s) \<and>
     buffers s 0 = Some b \<and> revision b = current_atlas_revision s \<and>
     get_ref_count_flag shared_text_parameters \<and> ref_count b = 1 \<and>
     (\<exists>s'. GetBuffer tiny_env '''' 0 shared_text_parameters s = Inr (Some 0, s') \<and>
        map_option ref_count (buffers s' 0) = Some 2) \<and>
     (\<exists>s' b'. CreateBuffer tiny_env '''' 0 shared_text_parameters s = Inr (Some 0, s') \<and>
        buffers s' 0 = Some b' \<and> same_layout b b' \<and> ref_count b' = 2)"
proof -
  let ?p = shared_text_parameters
  let ?X = "CreateBuffer tiny_env '''' 0 ?p (tiny_manager 4)"
  have "map_sum id fst ?X = Inr (Some 0)" by code_simp
  then have "?X = Inr (Some 0, snd (projr ?X))" by (rule Inr_result)
  then obtain s where x: "?X = Inr (Some 0, s)" and s: "s = snd (projr ?X)" by simp
  from x have g: "GetBuffer tiny_env '''' 0 ?p (tiny_manager 4) = Inr (Some 0, s)"
    by (simp add: GetBuffer_def)
  have e: "map_option (\<lambda>b. (revision b, ref_count b)) (buffers (snd (projr ?X)) 0)
             = Some (current_atlas_revision (snd (projr ?X)), 1)"
    by code_simp
  have f: "get_ref_count_flag ?p"
    by (simp add: shared_text_parameters_def)
  from GetBuffer_returns_same_buffer
    [of tiny_env "''''" 0 ?p "tiny_manager 4" 0 s "''''" 0, THEN mp, OF g]
  obtain b where b: "buffers s 0 = Some b"
    and fresh: "revision b = current_atlas_revision s \<longrightarrow>
           GetBuffer tiny_env '''' 0 ?p s
             = Inr (Some 0,
                    s\<lparr>buffers := (buffers s)
                         (0 \<mapsto> b\<lparr>pass := (if current_pass s \<noteq> kRenderPass tiny_env
                                            then current_pass s else pass b),
                                  ref_count := ref_count b
                                     + (if get_ref_count_flag ?p then 1 else 0)\<rparr>)\<rparr>)"
    and any: "\<forall>r s'. CreateBuffer tiny_env '''' 0 ?p s = Inr (r, s') \<longrightarrow>
           (r = None \<or> r = Some 0) \<and> map_buffers s' = map_buffers s \<and>
           (\<forall>x. x \<noteq> 0 \<longrightarrow> buffers s' x = buffers s x) \<and>
           (\<exists>b'. buffers s' 0 = Some b' \<and> same_layout b b' \<and>
              (r = Some 0 \<longrightarrow>
                 ref_count b' = ref_count b + (if get_ref_count_flag ?p then 1 else 0)))"
    by (elim exE conjE)
  let ?Z = "CreateBuffer tiny_env '''' 0 ?p (snd (projr ?X))"
  have "map_sum id fst ?Z = Inr (Some 0)" by code_simp
  then have "?Z = Inr (Some 0, snd (projr ?Z))" by (rule Inr_result)
  with s obtain s'' where z: "CreateBuffer tiny_env '''' 0 ?p s = Inr (Some 0, s'')" by simp
  from e s b have r: "revision b = current_atlas_revision s" and c: "ref_count b = 1"
    by simp_all
  from fresh r have "GetBuffer tiny_env '''' 0 ?p s
             = Inr (Some 0,
                    s\<lparr>buffers := (buffers s)
                         (0 \<mapsto> b\<lparr>pass := (if current_pass s \<noteq> kRenderPass tiny_env
                                            then current_pass s else pass b),
                                  ref_count := ref_count b
                                     + (if get_ref_count_flag ?p then 1 else 0)\<rparr>)\<rparr>)"
    by (rule mp)
  moreover have "map_option ref_count (buffers
       (s\<lparr>buffers := (buffers s)
             (0 \<mapsto> b\<lparr>pass := (if current_pass s \<noteq> kRenderPass tiny_env
                                then current_pass s else pass b),
                      ref_count := ref_count b
                         + (if get_ref_count_flag ?p then 1 else 0)\<rparr>)\<rparr>) 0)
       = Some 2"
    using c f by simp
  ultimately have again: "\<exists>s'. GetBuffer tiny_env '''' 0 ?p s = Inr (Some 0, s') \<and>
        map_option ref_count (buffers s' 0) = Some 2"
    by simp
  from any [THEN spec, THEN spec, THEN mp, OF z] c f
  have "\<exists>b'. buffers s'' 0 = Some b' \<and> same_layout b b' \<and> ref_count b' = 2"
    by auto
  with z have other: "\<exists>s' b'. CreateBuffer tiny_env '''' 0 ?p s = Inr (Some 0, s') \<and>
        buffers s' 0 = Some b' \<and> same_layout b b' \<and> ref_count b' = 2"
    by blast
  from g b r c f again other show ?thesis by blast
qed

end
